theory Spec2Isabelle
  imports Complex_Main "HOL-Library.Log_Nat" "HOL-Library.Multiset"
begin

section \<open>The fetch pipeline (fetch/fetch.go)\<close>

subsection \<open>Strings\<close>

text \<open>
  Go strings are byte sequences, UTF-8 by convention; they are modelled as \<open>string\<close>. Of
  package \<open>strings\<close> the program calls \<open>Contains\<close>, \<open>TrimSpace\<close>, \<open>EqualFold\<close> and
  \<open>ToUpper\<close>.

  \<open>Contains\<close> looks for a contiguous run of bytes.
\<close>

fun HasPrefix :: "string \<Rightarrow> string \<Rightarrow> bool" where
  "HasPrefix s [] = True"
| "HasPrefix [] (p # ps) = False"
| "HasPrefix (c # cs) (p # ps) = (c = p \<and> HasPrefix cs ps)"

fun Contains :: "string \<Rightarrow> string \<Rightarrow> bool" where
  "Contains [] substr = (substr = [])"
| "Contains (c # cs) substr = (HasPrefix (c # cs) substr \<or> Contains cs substr)"

text \<open>
  \<open>TrimSpace\<close> removes from both ends the runes for which \<open>unicode.IsSpace\<close> holds: the
  six ASCII ones (tab, line feed, vertical tab, form feed, carriage return, space), U+0085
  and U+00A0 (two bytes each in UTF-8), and U+1680, U+2000 to U+200A, U+2028, U+2029,
  U+202F, U+205F and U+3000 (three bytes each). A byte that does not start a well-formed
  rune decodes as U+FFFD, which is no white space, so trimming stops there. From the
  left, runes are decoded forwards; from the right, backwards.
\<close>

definition isSpace :: "char \<Rightarrow> bool" where
  "isSpace c = (c \<in> set [CHR 0x09, CHR 0x0A, CHR 0x0B, CHR 0x0C, CHR 0x0D, CHR 0x20])"

definition isSpace2 :: "char \<Rightarrow> char \<Rightarrow> bool" where
  "isSpace2 a b = (a = CHR 0xC2 \<and> (b = CHR 0x85 \<or> b = CHR 0xA0))"

definition isSpace3 :: "char \<Rightarrow> char \<Rightarrow> char \<Rightarrow> bool" where
  "isSpace3 a b c =
     (a = CHR 0xE1 \<and> b = CHR 0x9A \<and> c = CHR 0x80
      \<or> a = CHR 0xE2 \<and> b = CHR 0x80
          \<and> ((0x80::nat) \<le> of_char c \<and> of_char c \<le> (0x8A::nat)
              \<or> c = CHR 0xA8 \<or> c = CHR 0xA9 \<or> c = CHR 0xAF)
      \<or> a = CHR 0xE2 \<and> b = CHR 0x81 \<and> c = CHR 0x9F
      \<or> a = CHR 0xE3 \<and> b = CHR 0x80 \<and> c = CHR 0x80)"

text \<open>The encodings of the white space runes, as strings.\<close>

definition space_seq :: "string \<Rightarrow> bool" where
  "space_seq w =
     (case w of
        [a] \<Rightarrow> isSpace a
      | [a, b] \<Rightarrow> isSpace2 a b
      | [a, b, c] \<Rightarrow> isSpace3 a b c
      | _ \<Rightarrow> False)"

text \<open>
  Dropping from the front every rune of one, two or three bytes that the three tests
  accept.
\<close>

fun strip ::
  "(char \<Rightarrow> bool) \<Rightarrow> (char \<Rightarrow> char \<Rightarrow> bool) \<Rightarrow> (char \<Rightarrow> char \<Rightarrow> char \<Rightarrow> bool) \<Rightarrow> string \<Rightarrow> string"
where
  "strip p1 p2 p3 (a # b # c # s) =
     (if p1 a then strip p1 p2 p3 (b # c # s)
      else if p2 a b then strip p1 p2 p3 (c # s)
      else if p3 a b c then strip p1 p2 p3 s
      else a # b # c # s)"
| "strip p1 p2 p3 [a, b] =
     (if p1 a then strip p1 p2 p3 [b] else if p2 a b then [] else [a, b])"
| "strip p1 p2 p3 [a] = (if p1 a then [] else [a])"
| "strip p1 p2 p3 [] = []"

definition TrimLeft :: "string \<Rightarrow> string" where
  "TrimLeft s = strip isSpace isSpace2 isSpace3 s"

definition TrimRight :: "string \<Rightarrow> string" where
  "TrimRight s =
     rev (strip isSpace (\<lambda>a b. isSpace2 b a) (\<lambda>a b c. isSpace3 c b a) (rev s))"

definition TrimSpace :: "string \<Rightarrow> string" where
  "TrimSpace s = TrimRight (TrimLeft s)"

text \<open>
  The upper-case form of an ASCII byte. \<open>strings.ToUpper\<close> itself applies the upper-case
  mapping of Unicode, a table of the library; it is a parameter \<open>up\<close> of the parser, of
  which only its documented behaviour on strings of ASCII bytes is used below: it maps
  each of \<open>a\<close>..\<open>z\<close> to \<open>A\<close>..\<open>Z\<close> and leaves the other bytes.
\<close>

definition asciiUpper :: "char \<Rightarrow> char" where
  "asciiUpper c =
     (case map_of (zip ''abcdefghijklmnopqrstuvwxyz'' ''ABCDEFGHIJKLMNOPQRSTUVWXYZ'') c of
        None \<Rightarrow> c | Some u \<Rightarrow> u)"

definition isASCII :: "string \<Rightarrow> bool" where
  "isASCII s = list_all (\<lambda>c. (of_char c :: nat) < 0x80) s"

text \<open>
  \<open>strings.EqualFold(s, t)\<close> for a \<open>t\<close> of ASCII bytes, which is how the program calls
  it (with a literal). Under Unicode simple case folding an ASCII letter is equal to its
  other case and, beyond ASCII, only \<open>S\<close> and \<open>s\<close> to U+017F and \<open>K\<close> and \<open>k\<close> to U+212A;
  any other rune of \<open>s\<close>, well-formed or not, equals no ASCII byte.
\<close>

fun EqualFold :: "string \<Rightarrow> string \<Rightarrow> bool" where
  "EqualFold [] [] = True"
| "EqualFold [] (b # t) = False"
| "EqualFold (a # s) [] = False"
| "EqualFold (a # s) (b # t) =
     (if asciiUpper a = asciiUpper b then EqualFold s t
      else if a = CHR 0xC5 \<and> HasPrefix s [CHR 0xBF] \<and> asciiUpper b = CHR ''S''
        then EqualFold (drop 1 s) t
      else if a = CHR 0xE2 \<and> HasPrefix s [CHR 0x84, CHR 0xAA] \<and> asciiUpper b = CHR ''K''
        then EqualFold (drop 2 s) t
      else False)"

subsection \<open>Airport records and the CSV parser\<close>

text \<open>
  The struct \<open>Airport\<close>. The type \<open>'f\<close> stands for \<open>float64\<close>: the parser only stores
  what \<open>strconv.ParseFloat\<close> returns, so the conversion is a parameter \<open>pf\<close> of the parser
  (its error result is discarded by the source), next to the parameter \<open>up\<close> for
  \<open>strings.ToUpper\<close>.
\<close>

record 'f Airport =
  ArptID :: string
  Name :: string
  City :: string
  State :: string
  ICAO :: string
  Lat :: 'f
  Lon :: 'f
  Fuel :: "string \<rightharpoonup> bool"

text \<open>
  What can stop the program: an error value returned by a library call and then passed to
  \<open>panic\<close>, or a run-time panic of an index expression (index and length).
\<close>

datatype error =
    OpenError
  | CsvError
  | IndexOutOfRange int nat
  | NotFoundInZip
  | ZipOpenError
  | ExtractError
  | MarshalError
  | WriteError
  | GetError
  | HttpStatus nat string
  | CreateError
  | CopyError
  | InvalidZip

definition parseFuel :: "(string \<Rightarrow> string) \<Rightarrow> string \<Rightarrow> (string \<rightharpoonup> bool)" where
  "parseFuel up s =
     (let x = up s in
      [''mogas'' \<mapsto> Contains x ''MOGAS'',
       ''100ll'' \<mapsto> Contains x ''100'',
       ''jet_a'' \<mapsto> Contains x ''JET''])"

text \<open>An index expression \<open>xs[i]\<close> of Go: out of range, it panics.\<close>

definition index :: "'a list \<Rightarrow> int \<Rightarrow> error + 'a" where
  "index xs i =
     (if 0 \<le> i \<and> i < int (length xs) then Inr (xs ! nat i)
      else Inl (IndexOutOfRange i (length xs)))"

text \<open>The closure \<open>col\<close>: the position of the first header cell equal to the name, or -1.\<close>

fun col_loop :: "nat \<Rightarrow> string list \<Rightarrow> string \<Rightarrow> int" where
  "col_loop i [] name = -1"
| "col_loop i (h # hs) name = (if h = name then int i else col_loop (Suc i) hs name)"

definition col :: "string list \<Rightarrow> string \<Rightarrow> int" where
  "col header name = col_loop 0 header name"

text \<open>
  One iteration of the loop over \<open>rows[1:]\<close>. The seven cells are read in the order of the
  source: latitude, longitude and identifier first, then the cells of the struct literal.
\<close>

definition parseRow ::
  "(string \<Rightarrow> string) \<Rightarrow> (string \<Rightarrow> 'f) \<Rightarrow> string list \<Rightarrow> string list \<Rightarrow> error + 'f Airport"
where
  "parseRow up pf header row =
     (case index row (col header ''LAT_DECIMAL'') of Inl e \<Rightarrow> Inl e | Inr latS \<Rightarrow>
     (case index row (col header ''LONG_DECIMAL'') of Inl e \<Rightarrow> Inl e | Inr lonS \<Rightarrow>
     (case index row (col header ''ARPT_ID'') of Inl e \<Rightarrow> Inl e | Inr idS \<Rightarrow>
     (case index row (col header ''ARPT_NAME'') of Inl e \<Rightarrow> Inl e | Inr nameS \<Rightarrow>
     (case index row (col header ''CITY'') of Inl e \<Rightarrow> Inl e | Inr cityS \<Rightarrow>
     (case index row (col header ''STATE_CODE'') of Inl e \<Rightarrow> Inl e | Inr stateS \<Rightarrow>
     (case index row (col header ''FUEL_TYPES'') of Inl e \<Rightarrow> Inl e | Inr fuelS \<Rightarrow>
        (let lat = pf latS; lon = pf lonS; ident = TrimSpace idS in
         Inr \<lparr>ArptID = ident, Name = nameS, City = cityS, State = stateS,
              ICAO = ''K'' @ ident, Lat = lat, Lon = lon, Fuel = parseFuel up fuelS\<rparr>))))))))"

fun parseRows ::
  "(string \<Rightarrow> string) \<Rightarrow> (string \<Rightarrow> 'f) \<Rightarrow> string list \<Rightarrow> string list list \<Rightarrow> 'f Airport list
     \<Rightarrow> error + 'f Airport list"
where
  "parseRows up pf header [] out = Inr out"
| "parseRows up pf header (row # rows) out =
     (case parseRow up pf header row of
        Inl e \<Rightarrow> Inl e
      | Inr ap \<Rightarrow> parseRows up pf header rows (out @ [ap]))"

text \<open>
  The file at the path, as \<open>os.Open\<close> and \<open>csv.Reader.ReadAll\<close> (with
  \<open>FieldsPerRecord = -1\<close>, so rows of any width) deliver it.
\<close>

datatype csv_file = Unopenable | Malformed | Records "string list list"

definition parseAirports ::
  "(string \<Rightarrow> string) \<Rightarrow> (string \<Rightarrow> 'f) \<Rightarrow> csv_file \<Rightarrow> error + 'f Airport list"
where
  "parseAirports up pf f =
     (case f of
        Unopenable \<Rightarrow> Inl OpenError
      | Malformed \<Rightarrow> Inl CsvError
      | Records rows \<Rightarrow>
          (case index rows 0 of
             Inl e \<Rightarrow> Inl e
           | Inr header \<Rightarrow> parseRows up pf header (drop 1 rows) []))"

subsection \<open>Times, durations and float64\<close>

text \<open>
  A \<open>time.Time\<close> in UTC is modelled as the number of nanoseconds since the Unix epoch, an
  unbounded integer (the range of \<open>time.Time\<close> is far wider than what is reached here). A
  \<open>time.Duration\<close> is an \<open>int64\<close> count of nanoseconds: its multiplication wraps around and
  \<open>Time.Sub\<close> saturates.
\<close>

type_synonym Time = int
type_synonym Duration = int

definition wrap64 :: "int \<Rightarrow> int" where
  "wrap64 x = (x + 2 ^ 63) mod 2 ^ 64 - 2 ^ 63"

definition Hour :: Duration where
  "Hour = 3600 * 1000000000"

definition cycleLengthDays :: int where
  "cycleLengthDays = 28"

text \<open>Days since 1970-01-01 of a date of the proleptic Gregorian calendar, and back.\<close>

definition days_from_civil :: "int \<Rightarrow> int \<Rightarrow> int \<Rightarrow> int" where
  "days_from_civil y m d =
     (let y' = (if m \<le> 2 then y - 1 else y);
          era = y' div 400;
          yoe = y' - era * 400;
          doy = (153 * (if 2 < m then m - 3 else m + 9) + 2) div 5 + d - 1;
          doe = yoe * 365 + yoe div 4 - yoe div 100 + doy
      in era * 146097 + doe - 719468)"

definition civil_from_days :: "int \<Rightarrow> int \<times> int \<times> int" where
  "civil_from_days z0 =
     (let z = z0 + 719468;
          era = z div 146097;
          doe = z - era * 146097;
          yoe = (doe - doe div 1460 + doe div 36524 - doe div 146096) div 365;
          doy = doe - (365 * yoe + yoe div 4 - yoe div 100);
          mp = (5 * doy + 2) div 153;
          d = doy - (153 * mp + 2) div 5 + 1;
          m = (if mp < 10 then mp + 3 else mp - 9);
          y = yoe + era * 400
      in (if m \<le> 2 then y + 1 else y, m, d))"

text \<open>\<open>time.Date(y, m, d, 0, 0, 0, 0, time.UTC)\<close> and the accessors of a UTC time.\<close>

definition Date :: "int \<Rightarrow> int \<Rightarrow> int \<Rightarrow> Time" where
  "Date y m d = days_from_civil y m d * (24 * Hour)"

definition Year :: "Time \<Rightarrow> int" where
  "Year t = fst (civil_from_days (t div (24 * Hour)))"

definition Month :: "Time \<Rightarrow> int" where
  "Month t = fst (snd (civil_from_days (t div (24 * Hour))))"

definition Day :: "Time \<Rightarrow> int" where
  "Day t = snd (snd (civil_from_days (t div (24 * Hour))))"

definition Add :: "Time \<Rightarrow> Duration \<Rightarrow> Time" where
  "Add t d = t + d"

definition Sub :: "Time \<Rightarrow> Time \<Rightarrow> Duration" where
  "Sub t u = max (- (2 ^ 63)) (min (2 ^ 63 - 1) (t - u))"

definition anchorDate :: Time where
  "anchorDate = Date 2025 12 25"

text \<open>
  Go's integer division truncates towards zero and the remainder has the sign of the
  dividend.
\<close>

definition quot :: "int \<Rightarrow> int \<Rightarrow> int" where
  "quot a b = sgn a * sgn b * (\<bar>a\<bar> div \<bar>b\<bar>)"

definition rem :: "int \<Rightarrow> int \<Rightarrow> int" where
  "rem a b = a - b * quot a b"

text \<open>
  A finite \<open>float64\<close> is the rational number it denotes. Every arithmetic operation of
  IEEE 754 binary64 returns the exact result rounded to the nearest representable number,
  ties to the even significand: \<open>f64\<close> is that rounding. A number \<open>x\<close> with
  \<open>2 ^ e \<le> \<bar>x\<bar> < 2 ^ (e + 1)\<close> is rounded to a multiple of \<open>2 ^ (e - 52)\<close>, and of
  \<open>2 ^ - 1074\<close> in the subnormal range. Overflow to infinity does not occur below
  \<open>2 ^ 1024\<close>, and no number computed here exceeds \<open>2 ^ 22\<close>.
\<close>

type_synonym float64 = rat

definition round_half_even :: "rat \<Rightarrow> int" where
  "round_half_even y =
     (let f = \<lfloor>y\<rfloor>; r = y - of_int f in
      if r < 1 / 2 then f else if 1 / 2 < r then f + 1 else if even f then f else f + 1)"

text \<open>The integer \<open>e\<close> with \<open>2 ^ e \<le> x < 2 ^ (e + 1)\<close>, for positive \<open>x\<close>.\<close>

definition ilog2 :: "rat \<Rightarrow> int" where
  "ilog2 x =
     (let (n, d) = quotient_of x; e = bitlen n - bitlen d in
      if of_int d * (2::rat) powi e \<le> of_int n then e else e - 1)"

definition f64 :: "rat \<Rightarrow> float64" where
  "f64 x =
     (if x = 0 then 0
      else let e = max (ilog2 \<bar>x\<bar> - 52) (- 1074)
           in of_int (round_half_even (x / 2 powi e)) * 2 powi e)"

text \<open>The conversion \<open>int(x)\<close> of a float discards the fraction.\<close>

definition int_of_float :: "float64 \<Rightarrow> int" where
  "int_of_float x = (if 0 \<le> x then \<lfloor>x\<rfloor> else \<lceil>x\<rceil>)"

text \<open>
  \<open>Duration.Hours\<close> of package \<open>time\<close>:
  \<^verbatim>\<open>hour := d / Hour; nsec := d % Hour; return float64(hour) + float64(nsec)/(60*60*1e9)\<close>
\<close>

definition Hours :: "Duration \<Rightarrow> float64" where
  "Hours d =
     (let hour = quot d Hour; nsec = rem d Hour in
      f64 (f64 (of_int hour) + f64 (f64 (of_int nsec) / (60 * 60 * 1000000000))))"

text \<open>\<open>computeNextCycle\<close>, with the clock reading \<open>time.Now().UTC()\<close> as its argument.\<close>

definition computeNextCycle :: "Time \<Rightarrow> Time" where
  "computeNextCycle now =
     (let daysSinceAnchor = f64 (Hours (Sub now anchorDate) / 24);
          n = int_of_float (f64 (daysSinceAnchor / of_int cycleLengthDays)) + 1
      in Add anchorDate (wrap64 (wrap64 (wrap64 (n * cycleLengthDays) * 24) * Hour)))"

subsection \<open>The archive's address\<close>

fun digits :: "nat \<Rightarrow> string" where
  "digits n =
     (if n < 10 then [''0123456789'' ! n]
      else digits (n div 10) @ [''0123456789'' ! (n mod 10)])"

declare digits.simps [simp del]

text \<open>The verbs \<open>%d\<close> and \<open>%02d\<close> of \<open>fmt.Sprintf\<close>.\<close>

definition fmt_d :: "int \<Rightarrow> string" where
  "fmt_d i = (if i < 0 then ''-'' @ digits (nat (- i)) else digits (nat i))"

definition fmt_02d :: "int \<Rightarrow> string" where
  "fmt_02d i =
     (if i < 0 then ''-'' @ replicate (1 - length (digits (nat (- i)))) (CHR ''0'') @ digits (nat (- i))
      else replicate (2 - length (digits (nat i))) (CHR ''0'') @ digits (nat i))"

definition month_abbrev :: "int \<Rightarrow> string" where
  "month_abbrev m =
     [''Jan'', ''Feb'', ''Mar'', ''Apr'', ''May'', ''Jun'',
      ''Jul'', ''Aug'', ''Sep'', ''Oct'', ''Nov'', ''Dec''] ! nat (m - 1)"

definition formatZipURL :: "Time \<Rightarrow> string" where
  "formatZipURL t =
     (let day = fmt_02d (Day t);
          mon = month_abbrev (Month t);
          year = Year t;
          file = day @ ''_'' @ mon @ ''_'' @ fmt_d year @ ''_APT_CSV.zip''
      in ''https://nfdc.faa.gov/webContent/28DaySub/extra/'' @ file)"

subsection \<open>Downloading, validating, extracting, emitting\<close>

text \<open>
  The outside world of one run. An archive is what a file holds as far as
  \<open>zip.OpenReader\<close> is concerned: not a ZIP, or a ZIP with its entries in order; an entry
  either cannot be copied out or is a file that the CSV reader will see. The answer to the
  \<open>k\<close>-th call of \<open>http.Get\<close> (counted from 0) and the fate of the \<open>k\<close>-th attempt to
  write \<open>cycle.zip\<close> are given by the environment, as are \<open>strings.ToUpper\<close>,
  \<open>strconv.ParseFloat\<close>, the
  floats that \<open>json.MarshalIndent\<close> accepts, and whether \<open>os.WriteFile\<close> succeeds. The
  examples further down run on ASCII data, with \<open>map asciiUpper\<close> for \<open>strings.ToUpper\<close>.
\<close>

datatype entry = CannotExtract | File csv_file

datatype archive = NotAZip | Zip "(string \<times> entry) list"

datatype reply = NoReply | Reply nat archive

datatype disk = CreateFails | CopyFails archive | Stored

record 'f env =
  reply :: "nat \<Rightarrow> string \<Rightarrow> reply"
  disk :: "nat \<Rightarrow> disk"
  ToUpper :: "string \<Rightarrow> string"
  ParseFloat :: "string \<Rightarrow> 'f"
  jsonOK :: "'f \<Rightarrow> bool"
  writeOK :: bool

text \<open>
  The state the program changes: the addresses it has requested so far, the file
  \<open>cycle.zip\<close> and the file \<open>public/airports.json\<close>.
\<close>

record 'f world =
  requests :: "string list"
  cycle_zip :: "archive option"
  airports_json :: "'f Airport list option"

datatype exit = Completed | Panic error

text \<open>\<open>download(url, "cycle.zip")\<close>: the error it returns, if any, and the world after it.\<close>

definition download :: "'f env \<Rightarrow> string \<Rightarrow> 'f world \<Rightarrow> error option \<times> 'f world" where
  "download E url w =
     (let k = length (requests w);
          w1 = w\<lparr>requests := requests w @ [url]\<rparr>
      in case reply E k url of
           NoReply \<Rightarrow> (Some GetError, w1)
         | Reply code body \<Rightarrow>
             if code \<noteq> 200 then (Some (HttpStatus code url), w1)
             else (case disk E k of
                     CreateFails \<Rightarrow> (Some CreateError, w1)
                   | CopyFails partial \<Rightarrow> (Some CopyError, w1\<lparr>cycle_zip := Some partial\<rparr>)
                   | Stored \<Rightarrow> (None, w1\<lparr>cycle_zip := Some body\<rparr>)))"

definition isZipValid :: "'f world \<Rightarrow> bool" where
  "isZipValid w = (case cycle_zip w of Some (Zip es) \<Rightarrow> True | _ \<Rightarrow> False)"

fun extract_loop :: "(string \<times> entry) list \<Rightarrow> error + csv_file" where
  "extract_loop [] = Inl NotFoundInZip"
| "extract_loop ((nm, e) # es) =
     (if EqualFold nm ''APT_BASE.csv''
      then (case e of CannotExtract \<Rightarrow> Inl ExtractError | File c \<Rightarrow> Inr c)
      else extract_loop es)"

definition extractCSV :: "'f world \<Rightarrow> error + csv_file" where
  "extractCSV w =
     (case cycle_zip w of
        Some (Zip es) \<Rightarrow> extract_loop es
      | _ \<Rightarrow> Inl ZipOpenError)"

definition writeJSON :: "'f env \<Rightarrow> 'f Airport list \<Rightarrow> 'f world \<Rightarrow> error option \<times> 'f world" where
  "writeJSON E v w =
     (if \<not> list_all (\<lambda>a. jsonOK E (Lat a) \<and> jsonOK E (Lon a)) v then (Some MarshalError, w)
      else if \<not> writeOK E then (Some WriteError, w)
      else (None, w\<lparr>airports_json := Some v\<rparr>))"

definition runPipeline :: "'f env \<Rightarrow> 'f world \<Rightarrow> exit \<times> 'f world" where
  "runPipeline E w =
     (case extractCSV w of
        Inl err \<Rightarrow> (Panic err, w)
      | Inr csv \<Rightarrow>
          (case parseAirports (ToUpper E) (ParseFloat E) csv of
             Inl err \<Rightarrow> (Panic err, w)
           | Inr airports \<Rightarrow>
               (case writeJSON E airports w of
                  (Some err, w') \<Rightarrow> (Panic err, w')
                | (None, w') \<Rightarrow> (Completed, w'))))"

text \<open>\<open>main\<close>, with the clock reading as an argument.\<close>

definition main :: "'f env \<Rightarrow> Time \<Rightarrow> 'f world \<Rightarrow> exit \<times> 'f world" where
  "main E now w =
     (let nextCycle = computeNextCycle now;
          nextURL = formatZipURL nextCycle;
          (err, w1) = download E nextURL w
      in if err \<noteq> None \<or> \<not> isZipValid w1 then
           (let w2 = w1\<lparr>cycle_zip := None\<rparr>;
                currentCycle = Add nextCycle (- cycleLengthDays * 24 * Hour);
                currentURL = formatZipURL currentCycle;
                (err2, w3) = download E currentURL w2
            in case err2 of
                 Some e \<Rightarrow> (Panic e, w3)
               | None \<Rightarrow> if \<not> isZipValid w3 then (Panic InvalidZip, w3) else runPipeline E w3)
         else runPipeline E w1)"

section \<open>The browser page (public/js/main.js)\<close>

subsection \<open>Values\<close>

text \<open>
  A JavaScript number is modelled as a real (no NaN), a string as \<open>string\<close>. An element of
  \<open>airports.json\<close> is an object with the keys the pipeline writes; its \<open>fuel\<close> object is
  an association list, since the order of its keys shows in the page. \<open>render\<close> adds the
  key \<open>dist\<close>.
\<close>

record point =
  lat :: real
  lon :: real

record airport = point +
  arpt_id :: string
  name :: string
  city :: string
  state :: string
  icao :: string
  fuel :: "(string \<times> bool) list"

record ranked = airport +
  dist :: real

definition pos :: "'a point_scheme \<Rightarrow> point" where
  "pos p = \<lparr>lat = lat p, lon = lon p\<rparr>"

definition with_dist :: "airport \<Rightarrow> real \<Rightarrow> ranked" where
  "with_dist ap d =
     \<lparr>lat = lat ap, lon = lon ap, arpt_id = arpt_id ap, name = name ap, city = city ap,
      state = state ap, icao = icao ap, fuel = fuel ap, dist = d\<rparr>"

datatype mode = View | Radius | All

definition MAX_PINS :: nat where
  "MAX_PINS = 2000"

definition PAGE_SIZE :: nat where
  "PAGE_SIZE = 80"

text \<open>\<open>xs.slice(start, end)\<close> for indices that are natural numbers.\<close>

definition slice :: "nat \<Rightarrow> nat \<Rightarrow> 'a list \<Rightarrow> 'a list" where
  "slice start end xs = take (end - start) (drop start xs)"

text \<open>
  \<open>xs.sort(cmp)\<close>: ECMAScript leaves the algorithm open and requires a stable result that
  is ordered by the comparator whenever the comparator is consistent. It is modelled as the
  stable insertion sort; an element goes before the first one it does not exceed.
\<close>

fun sort_insert :: "('a \<Rightarrow> 'a \<Rightarrow> real) \<Rightarrow> 'a \<Rightarrow> 'a list \<Rightarrow> 'a list" where
  "sort_insert cmp x [] = [x]"
| "sort_insert cmp x (y # ys) =
     (if cmp x y \<le> 0 then x # y # ys else y # sort_insert cmp x ys)"

definition js_sort :: "('a \<Rightarrow> 'a \<Rightarrow> real) \<Rightarrow> 'a list \<Rightarrow> 'a list" where
  "js_sort cmp xs = foldr (sort_insert cmp) xs []"

subsection \<open>Escaping and the generated HTML\<close>

datatype js_value = JNull | JUndefined | JString string

text \<open>\<open>s.replace(/c/g, r)\<close> for a single character \<open>c\<close>.\<close>

definition replace_all :: "char \<Rightarrow> string \<Rightarrow> string \<Rightarrow> string" where
  "replace_all c r s = concat (map (\<lambda>x. if x = c then r else [x]) s)"

definition escapeHtml :: "js_value \<Rightarrow> string" where
  "escapeHtml v =
     (case v of
        JNull \<Rightarrow> []
      | JUndefined \<Rightarrow> []
      | JString str \<Rightarrow>
          replace_all (CHR 0x27) ''&#039;''
            (replace_all (CHR 0x22) ''&quot;''
              (replace_all (CHR ''>'') ''&gt;''
                (replace_all (CHR ''<'') ''&lt;''
                  (replace_all (CHR ''&'') ''&amp;'' str)))))"

fun join :: "string \<Rightarrow> string list \<Rightarrow> string" where
  "join sep [] = []"
| "join sep [x] = x"
| "join sep (x # y # ys) = x @ sep @ join sep (y # ys)"

text \<open>\<open>Object.keys(ap.fuel).filter((f) => ap.fuel[f]).join(", ")\<close>\<close>

definition fuelsText :: "'a airport_scheme \<Rightarrow> string" where
  "fuelsText ap =
     join '', '' (filter (\<lambda>f. map_of (fuel ap) f = Some True) (map fst (fuel ap)))"

definition dq :: string where
  "dq = [CHR 0x22]"

text \<open>
  The argument of \<open>bindPopup\<close> in \<open>renderPins\<close> and the \<open>innerHTML\<close> of a list entry in
  \<open>renderList\<close>, with \<open>toFixed\<close> for \<open>Number.prototype.toFixed(1)\<close>.
\<close>

definition popupHtml :: "(real \<Rightarrow> string) \<Rightarrow> ranked \<Rightarrow> string" where
  "popupHtml toFixed ap =
     ''<b>'' @ escapeHtml (JString (name ap)) @ ''</b><br>'' @
     escapeHtml (JString (city ap)) @ '', '' @ escapeHtml (JString (state ap)) @ ''<br>'' @
     ''Fuel: '' @ escapeHtml (JString (fuelsText ap)) @ ''<br>'' @
     ''Distance: '' @ toFixed (dist ap) @ '' mi<br>'' @
     ''<a href='' @ dq @ ''https://www.airnav.com/airport/K'' @ arpt_id ap @ dq @
     '' target='' @ dq @ ''_blank'' @ dq @
     '' style='' @ dq @ ''color:#2e7555; text-decoration:underline;'' @ dq @
     ''>View on AirNav</a>''"

definition nl :: "nat \<Rightarrow> string" where
  "nl k = CHR 0x0A # replicate k (CHR '' '')"

definition listItemHtml :: "(real \<Rightarrow> string) \<Rightarrow> ranked \<Rightarrow> string" where
  "listItemHtml toFixed ap =
     nl 6 @ ''<div class='' @ dq @ ''font-semibold text-gray-800'' @ dq @ ''>'' @
     nl 8 @ escapeHtml (JString (name ap)) @
       '' <span class='' @ dq @ ''text-gray-500 text-sm'' @ dq @ ''>('' @
       escapeHtml (JString (arpt_id ap)) @ '')</span>'' @
     nl 6 @ ''</div>'' @
     nl 6 @ ''<div class='' @ dq @ ''text-gray-600'' @ dq @ ''>'' @
       escapeHtml (JString (city ap)) @ '', '' @ escapeHtml (JString (state ap)) @ ''</div>'' @
     nl 6 @ ''<div class='' @ dq @ ''text-gray-700 text-sm'' @ dq @ ''>Fuel: '' @
       escapeHtml (JString (fuelsText ap)) @ ''</div>'' @
     nl 6 @ ''<div class='' @ dq @ ''text-gray-600 text-sm'' @ dq @ ''>Distance: '' @
       toFixed (dist ap) @ '' miles</div>'' @
     nl 6 @ ''<a class='' @ dq @ ''text-primary text-sm underline'' @ dq @
       '' target='' @ dq @ ''_blank'' @ dq @
       '' href='' @ dq @ ''https://www.airnav.com/airport/K'' @ arpt_id ap @ dq @ ''>'' @
     nl 8 @ ''View on AirNav'' @
     nl 6 @ ''</a>'' @
     nl 4"

subsection \<open>The page state\<close>

text \<open>
  The globals of the script and the part of the document and of the map it reads and
  writes. An element that may be missing from the document is an option. Of the three fuel
  buttons only the class \<open>active\<close> is kept, of the list its entries (one per airport, in
  order), of the count element its presence, of the Load More button its attribute
  \<open>disabled\<close>, of the map the pins (one per airport, in order) and the answer of
  \<open>map.getBounds().contains\<close>. \<open>frames\<close> counts the callbacks handed to
  \<open>requestAnimationFrame\<close> that have not run yet.
\<close>

record ui =
  airports :: "airport list"
  filtered :: "ranked list"
  markers :: "ranked list"
  center :: point
  radiusMiles :: real
  listPage :: nat
  searchMode :: mode
  isLoadingMore :: bool
  frames :: nat
  fuel_mogas :: "bool option"
  fuel_100ll :: "bool option"
  fuel_jet :: "bool option"
  listEl :: "ranked list option"
  countEl :: bool
  loadMoreBtn :: "bool option"
  viewport :: "point \<Rightarrow> bool"

definition getSelectedFuels :: "ui \<Rightarrow> string list" where
  "getSelectedFuels s =
     (if fuel_mogas s = Some True then [''mogas''] else []) @
     (if fuel_100ll s = Some True then [''100ll''] else []) @
     (if fuel_jet s = Some True then [''jet_a''] else [])"

definition inBounds :: "ui \<Rightarrow> airport \<Rightarrow> bool" where
  "inBounds s ap = viewport s (pos ap)"

text \<open>
  \<open>haversine\<close> computes in floating point with \<open>Math.sin\<close>, \<open>Math.cos\<close>, \<open>Math.asin\<close> and
  \<open>Math.sqrt\<close>. The functions below take it as the parameter \<open>hav\<close>, any function from two
  points to a number.
\<close>

definition filterAirports :: "(point \<Rightarrow> point \<Rightarrow> real) \<Rightarrow> ui \<Rightarrow> airport list" where
  "filterAirports hav s =
     (let fuels = getSelectedFuels s in
      if length fuels = 0 then []
      else
        (let result = filter (\<lambda>ap. list_ex (\<lambda>f. map_of (fuel ap) f = Some True) fuels) (airports s)
         in if searchMode s = All then result
            else if searchMode s = Radius
              then filter (\<lambda>ap. hav (center s) (pos ap) \<le> radiusMiles s) result
              else filter (\<lambda>ap. inBounds s ap) result))"

definition updateLoadMoreState :: "ui \<Rightarrow> ui" where
  "updateLoadMoreState s =
     (case loadMoreBtn s of
        None \<Rightarrow> s
      | Some b \<Rightarrow>
          (let totalShown = (listPage s + 1) * PAGE_SIZE;
               hasMore = totalShown < length (filtered s)
           in if \<not> hasMore then s\<lparr>loadMoreBtn := Some True\<rparr>
              else s\<lparr>loadMoreBtn := Some False\<rparr>))"

definition renderPins :: "ranked list \<Rightarrow> ui \<Rightarrow> ui" where
  "renderPins airportsToShow s = s\<lparr>markers := airportsToShow\<rparr>"

definition renderList :: "bool \<Rightarrow> ui \<Rightarrow> ui" where
  "renderList reset s =
     (case listEl s of
        None \<Rightarrow> s
      | Some entries \<Rightarrow>
          if \<not> countEl s then s
          else
            (let s1 = (if reset then s\<lparr>listEl := Some [], listPage := 0\<rparr> else s);
                 entries1 = (if reset then [] else entries);
                 start = listPage s1 * PAGE_SIZE;
                 end = min (start + PAGE_SIZE) (length (filtered s1));
                 chunk = slice start end (filtered s1)
             in updateLoadMoreState (s1\<lparr>listEl := Some (entries1 @ chunk)\<rparr>)))"

definition render :: "(point \<Rightarrow> point \<Rightarrow> real) \<Rightarrow> ui \<Rightarrow> ui" where
  "render hav s =
     (let s1 = s\<lparr>filtered :=
             js_sort (\<lambda>a b. dist a - dist b)
               (map (\<lambda>ap. with_dist ap (hav (center s) (pos ap))) (filterAirports hav s))\<rparr>;
          pinsToShow = slice 0 MAX_PINS (filtered s1);
          s2 = renderPins pinsToShow s1;
          s3 = renderList True s2
      in updateLoadMoreState s3)"

definition attemptLoadMore :: "ui \<Rightarrow> ui" where
  "attemptLoadMore s =
     (if isLoadingMore s then s
      else
        (let hasMore = (listPage s + 1) * PAGE_SIZE < length (filtered s) in
         if \<not> hasMore then updateLoadMoreState s
         else s\<lparr>isLoadingMore := True, frames := frames s + 1\<rparr>))"

text \<open>The callback that \<open>attemptLoadMore\<close> hands to \<open>requestAnimationFrame\<close>.\<close>

definition loadMoreFrame :: "ui \<Rightarrow> ui" where
  "loadMoreFrame s =
     (let s1 = s\<lparr>listPage := listPage s + 1\<rparr>;
          s2 = renderList False s1;
          s3 = s2\<lparr>isLoadingMore := False\<rparr>
      in updateLoadMoreState s3)"

subsection \<open>Events\<close>

text \<open>
  The handlers that \<open>init\<close>, \<open>initUI\<close> and \<open>setupLoadMoreObserver\<close> install, one event
  each. Where a handler moves the map (\<open>zoomToRadius\<close>, \<open>map.setView\<close>) or follows a move,
  the event carries what the map shows afterwards.
\<close>

datatype fuel_button = Mogas | Avgas | Jet

datatype event =
    MapClick real real "point \<Rightarrow> bool"
  | MoveEnd "point \<Rightarrow> bool"
  | Geolocated real real "point \<Rightarrow> bool"
  | DataLoaded "airport list"
  | FuelToggle fuel_button
  | SliderInput real "point \<Rightarrow> bool"
  | ShowCircleChange
  | ViewModeClick
  | ListAllClick
  | LoadMoreClick
  | LoadMoreVisible
  | AnimationFrame

definition toggle :: "fuel_button \<Rightarrow> ui \<Rightarrow> ui" where
  "toggle b s =
     (case b of
        Mogas \<Rightarrow> s\<lparr>fuel_mogas := map_option Not (fuel_mogas s)\<rparr>
      | Avgas \<Rightarrow> s\<lparr>fuel_100ll := map_option Not (fuel_100ll s)\<rparr>
      | Jet \<Rightarrow> s\<lparr>fuel_jet := map_option Not (fuel_jet s)\<rparr>)"

definition button_present :: "fuel_button \<Rightarrow> ui \<Rightarrow> bool" where
  "button_present b s =
     (case b of
        Mogas \<Rightarrow> fuel_mogas s \<noteq> None
      | Avgas \<Rightarrow> fuel_100ll s \<noteq> None
      | Jet \<Rightarrow> fuel_jet s \<noteq> None)"

fun handle :: "(point \<Rightarrow> point \<Rightarrow> real) \<Rightarrow> event \<Rightarrow> ui \<Rightarrow> ui" where
  "handle hav (MapClick la lo vp) s =
     (let s1 = s\<lparr>center := \<lparr>lat = la, lon = lo\<rparr>\<rparr>;
          s2 = (if searchMode s1 = View then s1\<lparr>searchMode := Radius, viewport := vp\<rparr> else s1)
      in render hav s2)"
| "handle hav (MoveEnd vp) s =
     (let s1 = s\<lparr>viewport := vp\<rparr> in
      if searchMode s1 = View then render hav s1 else s1)"
| "handle hav (Geolocated la lo vp) s =
     render hav (s\<lparr>center := \<lparr>lat = la, lon = lo\<rparr>, viewport := vp\<rparr>)"
| "handle hav (DataLoaded js) s = render hav (s\<lparr>airports := js\<rparr>)"
| "handle hav (FuelToggle b) s =
     (if button_present b s then render hav ((toggle b s)\<lparr>listPage := 0\<rparr>) else s)"
| "handle hav (SliderInput v vp) s =
     (let s1 = s\<lparr>radiusMiles := v\<rparr>;
          s2 = (if searchMode s1 = Radius then s1\<lparr>viewport := vp\<rparr> else s1)
      in render hav (s2\<lparr>listPage := 0\<rparr>))"
| "handle hav ShowCircleChange s = render hav s"
| "handle hav ViewModeClick s = render hav (s\<lparr>searchMode := View, listPage := 0\<rparr>)"
| "handle hav ListAllClick s = render hav (s\<lparr>searchMode := All, listPage := 0\<rparr>)"
| "handle hav LoadMoreClick s = attemptLoadMore s"
| "handle hav LoadMoreVisible s =
     (if \<not> isLoadingMore s then
        (let hasMore = (listPage s + 1) * PAGE_SIZE < length (filtered s) in
         if hasMore then attemptLoadMore s else updateLoadMoreState s)
      else s)"
| "handle hav AnimationFrame s =
     (if frames s = 0 then s else loadMoreFrame (s\<lparr>frames := frames s - 1\<rparr>))"

fun run :: "(point \<Rightarrow> point \<Rightarrow> real) \<Rightarrow> event list \<Rightarrow> ui \<Rightarrow> ui" where
  "run hav [] s = s"
| "run hav (e # es) s = run hav es (handle hav e s)"

section \<open>Properties of the fetch pipeline\<close>

subsection \<open>Substring search and the parser's loop\<close>

lemma HasPrefix_iff: "HasPrefix s p \<longleftrightarrow> (\<exists>q. s = p @ q)"
  by (induction s p rule: HasPrefix.induct) auto

lemma Contains_iff: "Contains s sub \<longleftrightarrow> (\<exists>p q. s = p @ sub @ q)"
proof (induction s)
  case Nil
  then show ?case by auto
next
  case (Cons c cs)
  show ?case
  proof
    assume "Contains (c # cs) sub"
    then consider "HasPrefix (c # cs) sub" | "Contains cs sub" by auto
    then show "\<exists>p q. c # cs = p @ sub @ q"
    proof cases
      case 1
      then obtain q where "c # cs = sub @ q" by (auto simp: HasPrefix_iff)
      then have "c # cs = [] @ sub @ q" by simp
      then show ?thesis by blast
    next
      case 2
      then obtain p q where "cs = p @ sub @ q" using Cons.IH by auto
      then have "c # cs = (c # p) @ sub @ q" by simp
      then show ?thesis by blast
    qed
  next
    assume "\<exists>p q. c # cs = p @ sub @ q"
    then obtain p q where pq: "c # cs = p @ sub @ q" by blast
    show "Contains (c # cs) sub"
    proof (cases p)
      case Nil
      then have "HasPrefix (c # cs) sub" using pq by (auto simp: HasPrefix_iff)
      then show ?thesis by simp
    next
      case (Cons a p')
      then have "cs = p' @ sub @ q" using pq by simp
      then have "Contains cs sub" using Cons.IH by blast
      then show ?thesis by simp
    qed
  qed
qed

lemma parseRow_icao:
  "parseRow up pf header row = Inr ap \<Longrightarrow>
   \<exists>idS. index row (col header ''ARPT_ID'') = Inr idS
       \<and> ArptID ap = TrimSpace idS \<and> ICAO ap = ''K'' @ TrimSpace idS"
  unfolding parseRow_def by (auto split: sum.splits simp: Let_def)

lemma parseRows_each:
  "parseRows up pf header rows acc = Inr out \<Longrightarrow>
   length out = length acc + length rows \<and> take (length acc) out = acc
   \<and> (\<forall>i < length rows. parseRow up pf header (rows ! i) = Inr (out ! (length acc + i)))"
proof (induction rows arbitrary: acc)
  case Nil
  then show ?case by simp
next
  case (Cons row rows)
  from Cons.prems obtain ap where ap: "parseRow up pf header row = Inr ap"
    and rest: "parseRows up pf header rows (acc @ [ap]) = Inr out"
    by (auto split: sum.splits)
  from Cons.IH [OF rest] have len: "length out = length acc + 1 + length rows"
    and tk: "take (length acc + 1) out = acc @ [ap]"
    and each: "\<forall>i < length rows. parseRow up pf header (rows ! i) = Inr (out ! (length acc + 1 + i))"
    by auto
  from tk have tk': "take (length acc) out = acc"
  proof -
    have "take (length acc) (take (length acc + 1) out) = take (length acc) (acc @ [ap])"
      using tk by simp
    then show ?thesis by (simp add: min_def)
  qed
  from tk have hd: "out ! length acc = ap"
  proof -
    have "take (length acc + 1) out ! length acc = (acc @ [ap]) ! length acc" using tk by simp
    then show ?thesis by simp
  qed
  show ?case
  proof (intro conjI allI impI)
    show "length out = length acc + length (row # rows)" using len by simp
    show "take (length acc) out = acc" by (rule tk')
    fix i assume "i < length (row # rows)"
    then show "parseRow up pf header ((row # rows) ! i) = Inr (out ! (length acc + i))"
      using each ap hd by (cases i) auto
  qed
qed

lemma parseAirports_each:
  assumes "parseAirports up pf f = Inr out"
  shows "\<exists>rows. f = Records rows \<and> rows \<noteq> [] \<and> length out = length rows - 1
     \<and> (\<forall>i < length out. parseRow up pf (rows ! 0) (rows ! (i + 1)) = Inr (out ! i))"
proof -
  from assms obtain rows where f: "f = Records rows"
    by (cases f) (auto simp: parseAirports_def)
  from assms f have ne: "rows \<noteq> []" and pr: "parseRows up pf (rows ! 0) (drop 1 rows) [] = Inr out"
    by (auto simp: parseAirports_def index_def split: if_splits)
  from parseRows_each [OF pr] have len: "length out = length rows - 1"
    and each: "\<forall>i < length rows - 1. parseRow up pf (rows ! 0) (drop 1 rows ! i) = Inr (out ! i)"
    by auto
  have "\<forall>i < length out. parseRow up pf (rows ! 0) (rows ! (i + 1)) = Inr (out ! i)"
    using each len by (auto simp: )
  with f ne len show ?thesis by blast
qed

subsection \<open>Trimming\<close>

lemma strip_spec:
  "\<exists>ws. list_all (\<lambda>w. case w of [a] \<Rightarrow> p1 a | [a, b] \<Rightarrow> p2 a b | [a, b, c] \<Rightarrow> p3 a b c
                        | _ \<Rightarrow> False) ws
        \<and> s = concat ws @ strip p1 p2 p3 s"
proof (induction p1 p2 p3 s rule: strip.induct)
  case (1 p1 p2 p3 a b c s)
  let ?ok = "\<lambda>w. case w of [a] \<Rightarrow> p1 a | [a, b] \<Rightarrow> p2 a b | [a, b, c] \<Rightarrow> p3 a b c | _ \<Rightarrow> False"
  consider (one) "p1 a" | (two) "\<not> p1 a" "p2 a b" | (three) "\<not> p1 a" "\<not> p2 a b" "p3 a b c"
    | (none) "\<not> p1 a" "\<not> p2 a b" "\<not> p3 a b c"
    by blast
  then show ?case
  proof cases
    case one
    with 1 obtain ws where "list_all ?ok ws" "b # c # s = concat ws @ strip p1 p2 p3 (b # c # s)"
      by auto
    with one have "list_all ?ok ([a] # ws)"
      "a # b # c # s = concat ([a] # ws) @ strip p1 p2 p3 (a # b # c # s)"
      by simp_all
    then show ?thesis by blast
  next
    case two
    with 1 obtain ws where "list_all ?ok ws" "c # s = concat ws @ strip p1 p2 p3 (c # s)"
      by auto
    with two have "list_all ?ok ([a, b] # ws)"
      "a # b # c # s = concat ([a, b] # ws) @ strip p1 p2 p3 (a # b # c # s)"
      by simp_all
    then show ?thesis by blast
  next
    case three
    with 1 obtain ws where "list_all ?ok ws" "s = concat ws @ strip p1 p2 p3 s"
      by auto
    with three have "list_all ?ok ([a, b, c] # ws)"
      "a # b # c # s = concat ([a, b, c] # ws) @ strip p1 p2 p3 (a # b # c # s)"
      by simp_all
    then show ?thesis by blast
  next
    case none
    then have "list_all ?ok []" "a # b # c # s = concat [] @ strip p1 p2 p3 (a # b # c # s)"
      by simp_all
    then show ?thesis by blast
  qed
next
  case (2 p1 p2 p3 a b)
  let ?ok = "\<lambda>w. case w of [a] \<Rightarrow> p1 a | [a, b] \<Rightarrow> p2 a b | [a, b, c] \<Rightarrow> p3 a b c | _ \<Rightarrow> False"
  consider (one) "p1 a" | (two) "\<not> p1 a" "p2 a b" | (none) "\<not> p1 a" "\<not> p2 a b"
    by blast
  then show ?case
  proof cases
    case one
    with 2 obtain ws where "list_all ?ok ws" "[b] = concat ws @ strip p1 p2 p3 [b]"
      by auto
    with one have "list_all ?ok ([a] # ws)"
      "[a, b] = concat ([a] # ws) @ strip p1 p2 p3 [a, b]"
      by simp_all
    then show ?thesis by blast
  next
    case two
    then have "list_all ?ok [[a, b]]" "[a, b] = concat [[a, b]] @ strip p1 p2 p3 [a, b]"
      by simp_all
    then show ?thesis by blast
  next
    case none
    then have "list_all ?ok []" "[a, b] = concat [] @ strip p1 p2 p3 [a, b]"
      by simp_all
    then show ?thesis by blast
  qed
next
  case (3 p1 p2 p3 a)
  let ?ok = "\<lambda>w. case w of [a] \<Rightarrow> p1 a | [a, b] \<Rightarrow> p2 a b | [a, b, c] \<Rightarrow> p3 a b c | _ \<Rightarrow> False"
  show ?case
  proof (cases "p1 a")
    case True
    then have "list_all ?ok [[a]]" "[a] = concat [[a]] @ strip p1 p2 p3 [a]"
      by simp_all
    then show ?thesis by blast
  next
    case False
    then have "list_all ?ok []" "[a] = concat [] @ strip p1 p2 p3 [a]"
      by simp_all
    then show ?thesis by blast
  qed
next
  case (4 p1 p2 p3)
  let ?ok = "\<lambda>w. case w of [a] \<Rightarrow> p1 a | [a, b] \<Rightarrow> p2 a b | [a, b, c] \<Rightarrow> p3 a b c | _ \<Rightarrow> False"
  have "list_all ?ok []" "[] = concat [] @ strip p1 p2 p3 []"
    by simp_all
  then show ?case by blast
qed

lemma strip_no_leading:
  assumes "case w of [a] \<Rightarrow> p1 a | [a, b] \<Rightarrow> p2 a b | [a, b, c] \<Rightarrow> p3 a b c | _ \<Rightarrow> False"
  shows "\<not> HasPrefix (strip p1 p2 p3 s) w"
  using assms
  by (induction p1 p2 p3 s rule: strip.induct) (auto split: list.splits)

lemma HasPrefix_append: "HasPrefix t w \<Longrightarrow> HasPrefix (t @ v) w"
  by (auto simp: HasPrefix_iff)

lemma rev_space_seq:
  "(case w of [a] \<Rightarrow> isSpace a | [a, b] \<Rightarrow> isSpace2 b a | [a, b, c] \<Rightarrow> isSpace3 c b a
      | _ \<Rightarrow> False) = space_seq (rev w)"
  by (auto simp: space_seq_def split: list.splits)

lemma TrimLeft_spec:
  "\<exists>ws. list_all space_seq ws \<and> s = concat ws @ TrimLeft s"
  using strip_spec [of isSpace isSpace2 isSpace3 s]
  unfolding TrimLeft_def space_seq_def by simp

lemma TrimRight_spec:
  "\<exists>vs. list_all space_seq vs \<and> s = TrimRight s @ concat vs"
proof -
  from strip_spec [of isSpace "\<lambda>a b. isSpace2 b a" "\<lambda>a b c. isSpace3 c b a" "rev s"]
  obtain ws where ws: "list_all (\<lambda>w. space_seq (rev w)) ws"
    and eq: "rev s = concat ws @ rev (TrimRight s)"
    unfolding rev_space_seq TrimRight_def by auto
  from eq have "rev (rev s) = rev (concat ws @ rev (TrimRight s))"
    by simp
  then have "s = TrimRight s @ concat (map rev (rev ws))"
    by (simp add: rev_concat)
  moreover from ws have "list_all space_seq (map rev (rev ws))"
    by (simp add: list_all_iff)
  ultimately show ?thesis by blast
qed

lemma TrimSpace_spec:
  "(\<exists>ws vs. list_all space_seq ws \<and> list_all space_seq vs
        \<and> s = concat ws @ TrimSpace s @ concat vs)
   \<and> (\<forall>w. space_seq w \<longrightarrow>
        \<not> HasPrefix (TrimSpace s) w \<and> \<not> HasPrefix (rev (TrimSpace s)) (rev w))"
proof -
  from TrimLeft_spec [of s] obtain ws where ws: "list_all space_seq ws"
    and l: "s = concat ws @ TrimLeft s"
    by blast
  from TrimRight_spec [of "TrimLeft s"] obtain vs where vs: "list_all space_seq vs"
    and r: "TrimLeft s = TrimSpace s @ concat vs"
    unfolding TrimSpace_def by blast
  from l r have "s = concat ws @ TrimSpace s @ concat vs"
    by simp
  with ws vs have a: "\<exists>ws vs. list_all space_seq ws \<and> list_all space_seq vs
        \<and> s = concat ws @ TrimSpace s @ concat vs"
    by blast
  have b: "\<not> HasPrefix (TrimSpace s) w \<and> \<not> HasPrefix (rev (TrimSpace s)) (rev w)"
    if w: "space_seq w" for w
  proof
    from w have "case w of [a] \<Rightarrow> isSpace a | [a, b] \<Rightarrow> isSpace2 a b
        | [a, b, c] \<Rightarrow> isSpace3 a b c | _ \<Rightarrow> False"
      by (simp add: space_seq_def)
    from strip_no_leading [OF this, of s] have "\<not> HasPrefix (TrimLeft s) w"
      by (simp add: TrimLeft_def)
    with r show "\<not> HasPrefix (TrimSpace s) w"
      using HasPrefix_append [of "TrimSpace s" w "concat vs"] by auto
    from w have "case rev w of [a] \<Rightarrow> isSpace a | [a, b] \<Rightarrow> isSpace2 b a
        | [a, b, c] \<Rightarrow> isSpace3 c b a | _ \<Rightarrow> False"
      by (simp add: rev_space_seq)
    from strip_no_leading [OF this, of "rev (TrimLeft s)"]
    show "\<not> HasPrefix (rev (TrimSpace s)) (rev w)"
      by (simp add: TrimSpace_def TrimRight_def)
  qed
  from a b show ?thesis by blast
qed

subsection \<open>Upper case on ASCII\<close>

lemma asciiUpper_letters:
  "asciiUpper c = CHR ''M'' \<longleftrightarrow> c = CHR ''m'' \<or> c = CHR ''M''"
  "asciiUpper c = CHR ''O'' \<longleftrightarrow> c = CHR ''o'' \<or> c = CHR ''O''"
  "asciiUpper c = CHR ''G'' \<longleftrightarrow> c = CHR ''g'' \<or> c = CHR ''G''"
  "asciiUpper c = CHR ''A'' \<longleftrightarrow> c = CHR ''a'' \<or> c = CHR ''A''"
  "asciiUpper c = CHR ''S'' \<longleftrightarrow> c = CHR ''s'' \<or> c = CHR ''S''"
  "asciiUpper c = CHR ''J'' \<longleftrightarrow> c = CHR ''j'' \<or> c = CHR ''J''"
  "asciiUpper c = CHR ''E'' \<longleftrightarrow> c = CHR ''e'' \<or> c = CHR ''E''"
  "asciiUpper c = CHR ''T'' \<longleftrightarrow> c = CHR ''t'' \<or> c = CHR ''T''"
  "asciiUpper c = CHR ''1'' \<longleftrightarrow> c = CHR ''1''"
  "asciiUpper c = CHR ''0'' \<longleftrightarrow> c = CHR ''0''"
  by (auto simp: asciiUpper_def)

lemma map_eq_infix:
  "(\<exists>p q. map f s = p @ x @ q) \<longleftrightarrow> (\<exists>p m q. s = p @ m @ q \<and> map f m = x)"
proof
  assume "\<exists>p q. map f s = p @ x @ q"
  then obtain p q where "map f s = p @ (x @ q)" by auto
  then have "\<exists>s1 s2. s = s1 @ s2 \<and> p = map f s1 \<and> x @ q = map f s2"
    by (simp only: map_eq_append_conv)
  then obtain s1 s2 where s: "s = s1 @ s2" and e: "map f s2 = x @ q"
    by auto
  from e have "\<exists>m s3. s2 = m @ s3 \<and> x = map f m \<and> q = map f s3"
    by (simp only: map_eq_append_conv)
  then obtain m s3 where "s2 = m @ s3" "map f m = x"
    by auto
  with s have "s = s1 @ m @ s3 \<and> map f m = x" by simp
  then show "\<exists>p m q. s = p @ m @ q \<and> map f m = x" by blast
next
  assume "\<exists>p m q. s = p @ m @ q \<and> map f m = x"
  then obtain p m q where "s = p @ m @ q" "map f m = x" by blast
  then have "map f s = map f p @ x @ map f q" by simp
  then show "\<exists>p q. map f s = p @ x @ q" by blast
qed

lemma upper_MOGAS:
  "map asciiUpper m = ''MOGAS''
     \<longleftrightarrow> list_all2 (\<lambda>c (l, u). c = l \<or> c = u) m (zip ''mogas'' ''MOGAS'')"
  by (auto simp: map_eq_Cons_conv list_all2_Cons2 asciiUpper_letters)

lemma upper_JET:
  "map asciiUpper m = ''JET''
     \<longleftrightarrow> list_all2 (\<lambda>c (l, u). c = l \<or> c = u) m (zip ''jet'' ''JET'')"
  by (auto simp: map_eq_Cons_conv list_all2_Cons2 asciiUpper_letters)

lemma upper_100: "map asciiUpper m = ''100'' \<longleftrightarrow> m = ''100''"
  by (auto simp: map_eq_Cons_conv asciiUpper_letters)

subsection \<open>Entry names\<close>

text \<open>
  The entry is found under any mixture of cases, and with U+017F for an \<open>S\<close>; a longer
  name, or one with another rune beyond ASCII, is not the entry.
\<close>

lemma EqualFold_examples:
  "EqualFold ''apt_Base.CSV'' ''APT_BASE.csv''"
  "EqualFold (''APT_BA'' @ [CHR 0xC5, CHR 0xBF] @ ''E.csv'') ''APT_BASE.csv''"
  "\<not> EqualFold ''APT_BASE.csv.bak'' ''APT_BASE.csv''"
  "\<not> EqualFold (''APT_BA'' @ [CHR 0xC5, CHR 0xBE] @ ''E.csv'') ''APT_BASE.csv''"
  by (simp_all add: asciiUpper_def)

subsection \<open>Fuel flags\<close>

text \<open>
  C5. \<open>parseFuel\<close> returns a map with exactly the keys \<open>mogas\<close>, \<open>100ll\<close> and \<open>jet_a\<close>,
  and for every input each flag is true exactly when the upper-cased input has the marker
  (\<open>MOGAS\<close>, \<open>100\<close>, \<open>JET\<close>) as a contiguous substring. With \<open>strings.ToUpper\<close> doing on
  ASCII strings what its documentation says, this is a case-insensitive match: for an
  ASCII input the flag is true exactly when the input itself has a contiguous run of
  bytes that spells the marker in any mixture of upper and lower case.
\<close>

theorem parseFuel_substring:
  assumes "\<forall>t. isASCII t \<longrightarrow> up t = map asciiUpper t"
  shows "dom (parseFuel up s) = {''mogas'', ''100ll'', ''jet_a''}
   \<and> parseFuel up s ''mogas'' = Some (\<exists>p q. up s = p @ ''MOGAS'' @ q)
   \<and> parseFuel up s ''100ll'' = Some (\<exists>p q. up s = p @ ''100'' @ q)
   \<and> parseFuel up s ''jet_a'' = Some (\<exists>p q. up s = p @ ''JET'' @ q)
   \<and> (isASCII s \<longrightarrow>
        parseFuel up s ''mogas''
          = Some (\<exists>p m q. s = p @ m @ q
                \<and> list_all2 (\<lambda>c (l, u). c = l \<or> c = u) m (zip ''mogas'' ''MOGAS''))
      \<and> parseFuel up s ''100ll'' = Some (\<exists>p q. s = p @ ''100'' @ q)
      \<and> parseFuel up s ''jet_a''
          = Some (\<exists>p m q. s = p @ m @ q
                \<and> list_all2 (\<lambda>c (l, u). c = l \<or> c = u) m (zip ''jet'' ''JET'')))"
proof -
  have d: "dom (parseFuel up s) = {''mogas'', ''100ll'', ''jet_a''}"
    unfolding parseFuel_def Let_def by auto
  have f: "parseFuel up s ''mogas'' = Some (\<exists>p q. up s = p @ ''MOGAS'' @ q)"
    "parseFuel up s ''100ll'' = Some (\<exists>p q. up s = p @ ''100'' @ q)"
    "parseFuel up s ''jet_a'' = Some (\<exists>p q. up s = p @ ''JET'' @ q)"
    unfolding parseFuel_def Let_def Contains_iff [symmetric] by simp_all
  have a: "parseFuel up s ''mogas''
          = Some (\<exists>p m q. s = p @ m @ q
                \<and> list_all2 (\<lambda>c (l, u). c = l \<or> c = u) m (zip ''mogas'' ''MOGAS''))
      \<and> parseFuel up s ''100ll'' = Some (\<exists>p q. s = p @ ''100'' @ q)
      \<and> parseFuel up s ''jet_a''
          = Some (\<exists>p m q. s = p @ m @ q
                \<and> list_all2 (\<lambda>c (l, u). c = l \<or> c = u) m (zip ''jet'' ''JET''))"
    if "isASCII s"
  proof -
    from that assms have u: "up s = map asciiUpper s"
      by blast
    have m: "(\<exists>p q. up s = p @ ''MOGAS'' @ q)
        \<longleftrightarrow> (\<exists>p m q. s = p @ m @ q
              \<and> list_all2 (\<lambda>c (l, u). c = l \<or> c = u) m (zip ''mogas'' ''MOGAS''))"
      unfolding u map_eq_infix upper_MOGAS ..
    have j: "(\<exists>p q. up s = p @ ''JET'' @ q)
        \<longleftrightarrow> (\<exists>p m q. s = p @ m @ q
              \<and> list_all2 (\<lambda>c (l, u). c = l \<or> c = u) m (zip ''jet'' ''JET''))"
      unfolding u map_eq_infix upper_JET ..
    have "(\<exists>p q. up s = p @ ''100'' @ q) \<longleftrightarrow> (\<exists>p m q. s = p @ m @ q \<and> m = ''100'')"
      unfolding u map_eq_infix upper_100 ..
    then have h: "(\<exists>p q. up s = p @ ''100'' @ q) \<longleftrightarrow> (\<exists>p q. s = p @ ''100'' @ q)"
      by blast
    from f show ?thesis
      by (simp only: m j h)
  qed
  from d f a show ?thesis by blast
qed

text \<open>
  An upper-casing that is the ASCII one throughout, and the cell \<open>100ll, Mogas\<close>: leaded
  fuel and motor fuel, no jet fuel.
\<close>

theorem parseFuel_substring_witness:
  "isASCII ''100ll, Mogas''
   \<and> parseFuel (map asciiUpper) ''100ll, Mogas'' ''mogas'' = Some True
   \<and> parseFuel (map asciiUpper) ''100ll, Mogas'' ''100ll'' = Some True
   \<and> parseFuel (map asciiUpper) ''100ll, Mogas'' ''jet_a'' = Some False
   \<and> (\<exists>p m q. ''100ll, Mogas'' = p @ m @ q
        \<and> list_all2 (\<lambda>c (l, u). c = l \<or> c = u) m (zip ''mogas'' ''MOGAS''))"
proof -
  have h: "\<forall>t. isASCII t \<longrightarrow> map asciiUpper t = map asciiUpper t"
    by simp
  have i: "isASCII ''100ll, Mogas''"
    by (simp add: isASCII_def)
  have v: "parseFuel (map asciiUpper) ''100ll, Mogas'' ''mogas'' = Some True"
    "parseFuel (map asciiUpper) ''100ll, Mogas'' ''100ll'' = Some True"
    "parseFuel (map asciiUpper) ''100ll, Mogas'' ''jet_a'' = Some False"
    by (simp_all add: parseFuel_def asciiUpper_def)
  from parseFuel_substring [OF h, of "''100ll, Mogas''"] i
  have "parseFuel (map asciiUpper) ''100ll, Mogas'' ''mogas''
          = Some (\<exists>p m q. ''100ll, Mogas'' = p @ m @ q
                \<and> list_all2 (\<lambda>c (l, u). c = l \<or> c = u) m (zip ''mogas'' ''MOGAS''))"
    by blast
  with v(1) have "\<exists>p m q. ''100ll, Mogas'' = p @ m @ q
        \<and> list_all2 (\<lambda>c (l, u). c = l \<or> c = u) m (zip ''mogas'' ''MOGAS'')"
    by simp
  with i v show ?thesis by blast
qed

subsection \<open>The ICAO field\<close>

text \<open>
  C9. Whenever the parser returns, it has produced one record per data row, and the
  record of data row \<open>i\<close> has as \<open>ICAO\<close> the letter \<open>K\<close> followed by the trimmed
  \<open>ARPT_ID\<close> cell of that row (and that trimmed cell as \<open>ArptID\<close>), whatever the cell
  holds. Trimmed means: the cell is the trimmed string between two runs of white space
  runes, and the trimmed string neither starts nor ends with a white space rune.
\<close>

theorem icao_is_K_prefixed:
  assumes "parseAirports up pf f = Inr out"
  shows "\<exists>rows. f = Records rows \<and> length out = length rows - 1
     \<and> (\<forall>i < length out. \<exists>idS.
           index (rows ! (i + 1)) (col (rows ! 0) ''ARPT_ID'') = Inr idS
         \<and> ArptID (out ! i) = TrimSpace idS
         \<and> ICAO (out ! i) = ''K'' @ TrimSpace idS
         \<and> (\<exists>ws vs. list_all space_seq ws \<and> list_all space_seq vs
               \<and> idS = concat ws @ TrimSpace idS @ concat vs)
         \<and> (\<forall>w. space_seq w \<longrightarrow>
               \<not> HasPrefix (TrimSpace idS) w \<and> \<not> HasPrefix (rev (TrimSpace idS)) (rev w)))"
proof -
  from parseAirports_each [OF assms] obtain rows where f: "f = Records rows"
    and len: "length out = length rows - 1"
    and each: "\<forall>i < length out. parseRow up pf (rows ! 0) (rows ! (i + 1)) = Inr (out ! i)"
    by blast
  have "\<exists>idS. index (rows ! (i + 1)) (col (rows ! 0) ''ARPT_ID'') = Inr idS
         \<and> ArptID (out ! i) = TrimSpace idS
         \<and> ICAO (out ! i) = ''K'' @ TrimSpace idS
         \<and> (\<exists>ws vs. list_all space_seq ws \<and> list_all space_seq vs
               \<and> idS = concat ws @ TrimSpace idS @ concat vs)
         \<and> (\<forall>w. space_seq w \<longrightarrow>
               \<not> HasPrefix (TrimSpace idS) w \<and> \<not> HasPrefix (rev (TrimSpace idS)) (rev w))"
    if "i < length out" for i
  proof -
    from that each have "parseRow up pf (rows ! 0) (rows ! (i + 1)) = Inr (out ! i)"
      by blast
    from parseRow_icao [OF this] obtain idS where
      "index (rows ! (i + 1)) (col (rows ! 0) ''ARPT_ID'') = Inr idS"
      "ArptID (out ! i) = TrimSpace idS" "ICAO (out ! i) = ''K'' @ TrimSpace idS"
      by blast
    with TrimSpace_spec [of idS] show ?thesis by blast
  qed
  with f len show ?thesis by blast
qed

text \<open>
  A file with one data row whose identifier has five letters, so that the prefixed form
  is no ICAO code, between a no-break space (U+00A0) and a blank on the left and a blank
  and an ideographic space (U+3000) on the right.
\<close>

theorem icao_is_K_prefixed_witness:
  "parseAirports (map asciiUpper) (\<lambda>s. s)
     (Records [[''ARPT_ID'', ''ARPT_NAME'', ''CITY'', ''STATE_CODE'', ''LAT_DECIMAL'',
                ''LONG_DECIMAL'', ''FUEL_TYPES''],
               [[CHR 0xC2, CHR 0xA0] @ '' PAITX '' @ [CHR 0xE3, CHR 0x80, CHR 0x80],
                ''STRIP'', ''NOME'', ''AK'', ''64.5'', ''-165.4'', []]])
   = Inr [\<lparr>ArptID = ''PAITX'', Name = ''STRIP'', City = ''NOME'', State = ''AK'',
            ICAO = ''KPAITX'', Lat = ''64.5'', Lon = ''-165.4'',
            Fuel = parseFuel (map asciiUpper) []\<rparr>]
   \<and> (\<exists>rows.
        Records [[''ARPT_ID'', ''ARPT_NAME'', ''CITY'', ''STATE_CODE'', ''LAT_DECIMAL'',
                  ''LONG_DECIMAL'', ''FUEL_TYPES''],
                 [[CHR 0xC2, CHR 0xA0] @ '' PAITX '' @ [CHR 0xE3, CHR 0x80, CHR 0x80],
                  ''STRIP'', ''NOME'', ''AK'', ''64.5'', ''-165.4'', []]]
          = Records rows
      \<and> (\<exists>idS. index (rows ! 1) (col (rows ! 0) ''ARPT_ID'') = Inr idS
            \<and> ''PAITX'' = TrimSpace idS \<and> ''KPAITX'' = ''K'' @ TrimSpace idS))"
proof -
  have h: "parseAirports (map asciiUpper) (\<lambda>s. s)
     (Records [[''ARPT_ID'', ''ARPT_NAME'', ''CITY'', ''STATE_CODE'', ''LAT_DECIMAL'',
                ''LONG_DECIMAL'', ''FUEL_TYPES''],
               [[CHR 0xC2, CHR 0xA0] @ '' PAITX '' @ [CHR 0xE3, CHR 0x80, CHR 0x80],
                ''STRIP'', ''NOME'', ''AK'', ''64.5'', ''-165.4'', []]])
   = Inr [\<lparr>ArptID = ''PAITX'', Name = ''STRIP'', City = ''NOME'', State = ''AK'',
            ICAO = ''KPAITX'', Lat = ''64.5'', Lon = ''-165.4'',
            Fuel = parseFuel (map asciiUpper) []\<rparr>]"
    by (simp add: parseAirports_def index_def parseRow_def col_def TrimSpace_def TrimLeft_def
        TrimRight_def isSpace_def isSpace2_def isSpace3_def Let_def)
  from icao_is_K_prefixed [OF h] obtain rows where
    r: "Records [[''ARPT_ID'', ''ARPT_NAME'', ''CITY'', ''STATE_CODE'', ''LAT_DECIMAL'',
                  ''LONG_DECIMAL'', ''FUEL_TYPES''],
                 [[CHR 0xC2, CHR 0xA0] @ '' PAITX '' @ [CHR 0xE3, CHR 0x80, CHR 0x80],
                  ''STRIP'', ''NOME'', ''AK'', ''64.5'', ''-165.4'', []]]
          = Records rows"
    and e: "\<forall>i < length [\<lparr>ArptID = ''PAITX'', Name = ''STRIP'', City = ''NOME'',
            State = ''AK'', ICAO = ''KPAITX'', Lat = ''64.5'', Lon = ''-165.4'',
            Fuel = parseFuel (map asciiUpper) []\<rparr>].
        \<exists>idS. index (rows ! (i + 1)) (col (rows ! 0) ''ARPT_ID'') = Inr idS
         \<and> ArptID ([\<lparr>ArptID = ''PAITX'', Name = ''STRIP'', City = ''NOME'',
            State = ''AK'', ICAO = ''KPAITX'', Lat = ''64.5'', Lon = ''-165.4'',
            Fuel = parseFuel (map asciiUpper) []\<rparr>] ! i) = TrimSpace idS
         \<and> ICAO ([\<lparr>ArptID = ''PAITX'', Name = ''STRIP'', City = ''NOME'',
            State = ''AK'', ICAO = ''KPAITX'', Lat = ''64.5'', Lon = ''-165.4'',
            Fuel = parseFuel (map asciiUpper) []\<rparr>] ! i) = ''K'' @ TrimSpace idS
         \<and> (\<exists>ws vs. list_all space_seq ws \<and> list_all space_seq vs
               \<and> idS = concat ws @ TrimSpace idS @ concat vs)
         \<and> (\<forall>w. space_seq w \<longrightarrow>
               \<not> HasPrefix (TrimSpace idS) w \<and> \<not> HasPrefix (rev (TrimSpace idS)) (rev w))"
    by blast
  from e have "\<exists>idS. index (rows ! 1) (col (rows ! 0) ''ARPT_ID'') = Inr idS
            \<and> ''PAITX'' = TrimSpace idS \<and> ''KPAITX'' = ''K'' @ TrimSpace idS"
    by force
  with h r show ?thesis by blast
qed

subsection \<open>What is emitted\<close>

text \<open>
  C1, as the code has it. The pipeline has no filter: when it completes, the list written
  to \<open>public/airports.json\<close> has exactly one record for every row after the header of
  \<open>APT_BASE.csv\<close>, in the order of the rows, each the parse of its row.
\<close>

theorem every_row_emitted:
  assumes "runPipeline E w = (Completed, w')"
  shows "\<exists>rows out. extractCSV w = Inr (Records rows)
     \<and> airports_json w' = Some out
     \<and> length out = length rows - 1
     \<and> (\<forall>i < length out. parseRow (ToUpper E) (ParseFloat E) (rows ! 0) (rows ! (i + 1)) = Inr (out ! i))"
proof -
  from assms obtain csv out where ex: "extractCSV w = Inr csv"
    and pa: "parseAirports (ToUpper E) (ParseFloat E) csv = Inr out"
    and wr: "writeJSON E out w = (None, w')"
    by (auto simp: runPipeline_def split: sum.splits prod.splits option.splits)
  from wr have js: "airports_json w' = Some out"
    by (auto simp: writeJSON_def split: if_splits)
  from parseAirports_each [OF pa] ex js show ?thesis by blast
qed

theorem every_row_emitted_witness:
  "\<exists>rows out. extractCSV
     (\<lparr>requests = [],
       cycle_zip = Some (Zip [(''apt_base.CSV'', File (Records
         [[''FUEL_TYPES'', ''ARPT_ID'', ''ARPT_NAME'', ''CITY'', ''STATE_CODE'', ''LAT_DECIMAL'',
           ''LONG_DECIMAL''],
          [[], ''ZZZ'', ''A'', ''B'', ''C'', ''1'', ''2'']]))]),
       airports_json = None\<rparr> :: string world) = Inr (Records rows)
     \<and> Some [\<lparr>ArptID = ''ZZZ'', Name = ''A'', City = ''B'', State = ''C'', ICAO = ''KZZZ'',
           Lat = ''1'', Lon = ''2'', Fuel = parseFuel (map asciiUpper) []\<rparr>] = Some out
     \<and> length out = length rows - 1
     \<and> (\<forall>i < length out. parseRow (map asciiUpper) (\<lambda>s. s) (rows ! 0) (rows ! (i + 1)) = Inr (out ! i))"
proof -
  have h: "runPipeline
     \<lparr>reply = (\<lambda>k url. NoReply), disk = (\<lambda>k. Stored), ToUpper = map asciiUpper, ParseFloat = (\<lambda>s. s),
      jsonOK = (\<lambda>x. True), writeOK = True\<rparr>
     \<lparr>requests = [],
      cycle_zip = Some (Zip [(''apt_base.CSV'', File (Records
         [[''FUEL_TYPES'', ''ARPT_ID'', ''ARPT_NAME'', ''CITY'', ''STATE_CODE'', ''LAT_DECIMAL'',
           ''LONG_DECIMAL''],
          [[], ''ZZZ'', ''A'', ''B'', ''C'', ''1'', ''2'']]))]),
      airports_json = None\<rparr>
   = (Completed,
     \<lparr>requests = [],
      cycle_zip = Some (Zip [(''apt_base.CSV'', File (Records
         [[''FUEL_TYPES'', ''ARPT_ID'', ''ARPT_NAME'', ''CITY'', ''STATE_CODE'', ''LAT_DECIMAL'',
           ''LONG_DECIMAL''],
          [[], ''ZZZ'', ''A'', ''B'', ''C'', ''1'', ''2'']]))]),
      airports_json = Some
        [\<lparr>ArptID = ''ZZZ'', Name = ''A'', City = ''B'', State = ''C'', ICAO = ''KZZZ'',
           Lat = ''1'', Lon = ''2'', Fuel = parseFuel (map asciiUpper) []\<rparr>]\<rparr>)"
    by (simp add: runPipeline_def extractCSV_def asciiUpper_def
      parseAirports_def index_def parseRow_def col_def TrimSpace_def TrimLeft_def TrimRight_def isSpace_def isSpace2_def isSpace3_def Let_def
      writeJSON_def)
  from every_row_emitted [OF h] show ?thesis by simp
qed

text \<open>
  C1 as stated fails: the second data row of this archive reports no fuel at all, and it
  is written to \<open>public/airports.json\<close> with its three flags false, beside the first.
\<close>

theorem unfiltered_counterexample:
  "runPipeline
     \<lparr>reply = (\<lambda>k url. NoReply), disk = (\<lambda>k. Stored), ToUpper = map asciiUpper, ParseFloat = (\<lambda>s. s),
      jsonOK = (\<lambda>x. True), writeOK = True\<rparr>
     \<lparr>requests = [],
      cycle_zip = Some (Zip [(''APT_BASE.csv'', File (Records
        [[''ARPT_ID'', ''ARPT_NAME'', ''CITY'', ''STATE_CODE'', ''LAT_DECIMAL'', ''LONG_DECIMAL'',
          ''FUEL_TYPES''],
         ['' 0A1 '', ''FIELD'', ''TOWN'', ''AL'', ''33.5'', ''-86.1'', ''100LL,MOGAS''],
         [''PAITX'', ''STRIP'', ''NOME'', ''AK'', ''64.5'', ''-165.4'', []]]))]),
      airports_json = None\<rparr>
   = (Completed,
     \<lparr>requests = [],
      cycle_zip = Some (Zip [(''APT_BASE.csv'', File (Records
        [[''ARPT_ID'', ''ARPT_NAME'', ''CITY'', ''STATE_CODE'', ''LAT_DECIMAL'', ''LONG_DECIMAL'',
          ''FUEL_TYPES''],
         ['' 0A1 '', ''FIELD'', ''TOWN'', ''AL'', ''33.5'', ''-86.1'', ''100LL,MOGAS''],
         [''PAITX'', ''STRIP'', ''NOME'', ''AK'', ''64.5'', ''-165.4'', []]]))]),
      airports_json = Some
        [\<lparr>ArptID = ''0A1'', Name = ''FIELD'', City = ''TOWN'', State = ''AL'', ICAO = ''K0A1'',
           Lat = ''33.5'', Lon = ''-86.1'', Fuel = parseFuel (map asciiUpper) ''100LL,MOGAS''\<rparr>,
         \<lparr>ArptID = ''PAITX'', Name = ''STRIP'', City = ''NOME'', State = ''AK'',
           ICAO = ''KPAITX'', Lat = ''64.5'', Lon = ''-165.4'', Fuel = parseFuel (map asciiUpper) []\<rparr>]\<rparr>)
   \<and> parseFuel (map asciiUpper) [] ''mogas'' = Some False
   \<and> parseFuel (map asciiUpper) [] ''100ll'' = Some False
   \<and> parseFuel (map asciiUpper) [] ''jet_a'' = Some False"
  by (simp add: runPipeline_def extractCSV_def asciiUpper_def
      parseAirports_def index_def parseRow_def col_def TrimSpace_def TrimLeft_def TrimRight_def isSpace_def isSpace2_def isSpace3_def Let_def
      writeJSON_def parseFuel_def)

subsection \<open>Download attempts\<close>

lemma requests_download: "requests (snd (download E url w)) = requests w @ [url]"
  by (simp add: download_def Let_def split: reply.splits disk.splits)

lemma requests_writeJSON: "requests (snd (writeJSON E v w)) = requests w"
  by (simp add: writeJSON_def)

lemma requests_runPipeline: "requests (snd (runPipeline E w)) = requests w"
proof -
  have "requests w' = requests w" if "writeJSON E v w = (r, w')" for v r w'
    using requests_writeJSON [of E v w] that by simp
  then show ?thesis
    by (auto simp: runPipeline_def split: sum.splits prod.splits option.splits)
qed

lemma main_cases:
  "main E now w =
     (let u1 = formatZipURL (computeNextCycle now);
          d1 = download E u1 w
      in if fst d1 \<noteq> None \<or> \<not> isZipValid (snd d1) then
           (let u2 = formatZipURL (computeNextCycle now - 28 * (24 * Hour));
                d2 = download E u2 ((snd d1)\<lparr>cycle_zip := None\<rparr>)
            in case fst d2 of
                 Some e \<Rightarrow> (Panic e, snd d2)
               | None \<Rightarrow>
                   if \<not> isZipValid (snd d2) then (Panic InvalidZip, snd d2)
                   else runPipeline E (snd d2))
         else runPipeline E (snd d1))"
  by (simp add: main_def Let_def Add_def cycleLengthDays_def case_prod_beta)

text \<open>
  C2. When the download of the next cycle's archive returns an error, or the file it
  left is not a ZIP, the run requests exactly one more address, that of the cycle 28 days
  before the computed next cycle; otherwise it requests nothing more. No other address is
  requested.
\<close>

theorem one_fallback_28_days_earlier:
  "requests (snd (main E now w)) = requests w @
     (if fst (download E (formatZipURL (computeNextCycle now)) w) \<noteq> None
         \<or> \<not> isZipValid (snd (download E (formatZipURL (computeNextCycle now)) w))
      then [formatZipURL (computeNextCycle now),
            formatZipURL (computeNextCycle now - 28 * (24 * Hour))]
      else [formatZipURL (computeNextCycle now)])"
  unfolding main_cases Let_def
  by (simp add: requests_download requests_runPipeline split: option.splits)

text \<open>
  On 2025-12-25 at 01:00 UTC, with a server that never answers: the archive of 22 January
  2026 is requested, then the archive of 25 December 2025, and nothing else.
\<close>

theorem one_fallback_28_days_earlier_witness:
  "requests (snd (main
      \<lparr>reply = (\<lambda>k url. NoReply), disk = (\<lambda>k. Stored), ToUpper = map asciiUpper, ParseFloat = (\<lambda>s. s),
       jsonOK = (\<lambda>x. True), writeOK = True\<rparr>
      (anchorDate + Hour)
      \<lparr>requests = [], cycle_zip = None, airports_json = None\<rparr>))
   = [''https://nfdc.faa.gov/webContent/28DaySub/extra/22_Jan_2026_APT_CSV.zip'',
      ''https://nfdc.faa.gov/webContent/28DaySub/extra/25_Dec_2025_APT_CSV.zip'']"
proof -
  have n: "computeNextCycle (anchorDate + Hour) = anchorDate + 672 * Hour"
    by code_simp
  have u1: "formatZipURL (anchorDate + 672 * Hour)
      = ''https://nfdc.faa.gov/webContent/28DaySub/extra/22_Jan_2026_APT_CSV.zip''"
    by code_simp
  have u2: "formatZipURL anchorDate
      = ''https://nfdc.faa.gov/webContent/28DaySub/extra/25_Dec_2025_APT_CSV.zip''"
    by code_simp
  show ?thesis
    using one_fallback_28_days_earlier
      [of "\<lparr>reply = (\<lambda>k url. NoReply), disk = (\<lambda>k. Stored), ToUpper = map asciiUpper, ParseFloat = (\<lambda>s. s),
             jsonOK = (\<lambda>x. True), writeOK = True\<rparr>"
          "anchorDate + Hour"
          "\<lparr>requests = [], cycle_zip = None, airports_json = None\<rparr>"]
    by (simp add: n u1 u2 download_def)
qed

text \<open>
  C4. A run requests at most two addresses. When the first attempt has failed and the
  second download returns an error or leaves a file that is not a ZIP, the run has
  requested exactly two addresses, ends in a panic (with the download's error, or with
  the message that the file is not a valid ZIP) and has not written
  \<open>public/airports.json\<close>.
\<close>

theorem at_most_two_attempts:
  fixes E :: "'f env" and now :: Time and w :: "'f world"
  defines "d1 \<equiv> download E (formatZipURL (computeNextCycle now)) w"
  defines "d2 \<equiv> download E (formatZipURL (computeNextCycle now - 28 * (24 * Hour)))
                   ((snd d1)\<lparr>cycle_zip := None\<rparr>)"
  shows "length (requests (snd (main E now w))) \<le> length (requests w) + 2
    \<and> ((fst d1 \<noteq> None \<or> \<not> isZipValid (snd d1)) \<and> (fst d2 \<noteq> None \<or> \<not> isZipValid (snd d2))
        \<longrightarrow> fst (main E now w) = Panic (case fst d2 of Some e \<Rightarrow> e | None \<Rightarrow> InvalidZip)
          \<and> length (requests (snd (main E now w))) = length (requests w) + 2
          \<and> airports_json (snd (main E now w)) = airports_json w)"
proof -
  have aj: "airports_json (snd (download E u v)) = airports_json v" for u and v :: "'f world"
    by (simp add: download_def Let_def split: reply.splits disk.splits)
  have len: "length (requests (snd (main E now w))) \<le> length (requests w) + 2"
    unfolding main_cases Let_def
    by (simp add: requests_download requests_runPipeline split: option.splits)
  have "fst (main E now w) = Panic (case fst d2 of Some e \<Rightarrow> e | None \<Rightarrow> InvalidZip)
          \<and> length (requests (snd (main E now w))) = length (requests w) + 2
          \<and> airports_json (snd (main E now w)) = airports_json w"
    if "fst d1 \<noteq> None \<or> \<not> isZipValid (snd d1)" "fst d2 \<noteq> None \<or> \<not> isZipValid (snd d2)"
    using that unfolding main_cases Let_def d1_def d2_def
    by (auto simp: requests_download aj split: option.splits)
  with len show ?thesis by blast
qed

text \<open>
  A server that answers 404 to the first request and sends something that is not a ZIP
  to the second: two requests, then the panic.
\<close>

theorem at_most_two_attempts_witness:
  "fst (main
      \<lparr>reply = (\<lambda>k url. if k = 0 then Reply 404 NotAZip else Reply 200 NotAZip),
       disk = (\<lambda>k. Stored), ToUpper = map asciiUpper, ParseFloat = (\<lambda>s. s), jsonOK = (\<lambda>x. True), writeOK = True\<rparr>
      (anchorDate + Hour)
      \<lparr>requests = [], cycle_zip = None, airports_json = None\<rparr>) = Panic InvalidZip
   \<and> length (requests (snd (main
      \<lparr>reply = (\<lambda>k url. if k = 0 then Reply 404 NotAZip else Reply 200 NotAZip),
       disk = (\<lambda>k. Stored), ToUpper = map asciiUpper, ParseFloat = (\<lambda>s. s), jsonOK = (\<lambda>x. True), writeOK = True\<rparr>
      (anchorDate + Hour)
      \<lparr>requests = [], cycle_zip = None, airports_json = None\<rparr>))) = 2"
  using at_most_two_attempts
      [of "\<lparr>reply = (\<lambda>k url. if k = 0 then Reply 404 NotAZip else Reply 200 NotAZip),
             disk = (\<lambda>k. Stored), ToUpper = map asciiUpper, ParseFloat = (\<lambda>s. s), jsonOK = (\<lambda>x. True),
             writeOK = True\<rparr>"
          "anchorDate + Hour"
          "\<lparr>requests = [], cycle_zip = None, airports_json = None\<rparr>"]
  by (simp add: download_def isZipValid_def)

subsection \<open>The next cycle\<close>

text \<open>
  C3 fails on the code. At 2026-07-08 23:59:59.999999999 UTC, one nanosecond before the
  cycle of 9 July 2026 (the anchor plus 7 times 28 days) begins, \<open>Duration.Hours\<close> rounds
  4703.99999999999972 hours to 4704, the quotient by 24 and by 28 is exactly 7, and
  \<open>computeNextCycle\<close> returns 6 August 2026 (the anchor plus 8 times 28 days), which is 28
  days and one nanosecond ahead, although 9 July 2026 is already later than the clock.
\<close>

theorem next_cycle_skips_one:
  "anchorDate \<le> Date 2026 7 9 - 1
   \<and> Date 2026 7 9 = anchorDate + 7 * (cycleLengthDays * (24 * Hour))
   \<and> Date 2026 7 9 - 1 < Date 2026 7 9
   \<and> Hours (Sub (Date 2026 7 9 - 1) anchorDate) = 4704
   \<and> computeNextCycle (Date 2026 7 9 - 1) = anchorDate + 8 * (cycleLengthDays * (24 * Hour))
   \<and> computeNextCycle (Date 2026 7 9 - 1) = Date 2026 8 6
   \<and> computeNextCycle (Date 2026 7 9 - 1) - (Date 2026 7 9 - 1)
        = cycleLengthDays * (24 * Hour) + 1"
  by code_simp

section \<open>Properties of the browser page\<close>

subsection \<open>Escaping\<close>

lemma escapeHtml_Cons:
  "escapeHtml (JString (c # s)) = escapeHtml (JString [c]) @ escapeHtml (JString s)"
  by (simp add: escapeHtml_def replace_all_def)

lemma escapeHtml_char:
  "escapeHtml (JString [c]) =
     (if c = CHR ''&'' then ''&amp;''
      else if c = CHR ''<'' then ''&lt;''
      else if c = CHR ''>'' then ''&gt;''
      else if c = CHR 0x22 then ''&quot;''
      else if c = CHR 0x27 then ''&#039;''
      else [c])"
  by (simp add: escapeHtml_def replace_all_def)

lemma escapeHtml_Nil: "escapeHtml (JString []) = []"
  by (simp add: escapeHtml_def replace_all_def)

lemma escapeHtml_no_markup:
  "set (escapeHtml (JString s)) \<inter> {CHR ''<'', CHR ''>'', CHR 0x22, CHR 0x27} = {}"
proof (induction s)
  case Nil
  then show ?case by (simp add: escapeHtml_Nil)
next
  case (Cons c s)
  have "set (escapeHtml (JString [c])) \<inter> {CHR ''<'', CHR ''>'', CHR 0x22, CHR 0x27} = {}"
    by (simp add: escapeHtml_char)
  with Cons show ?case
    by (simp add: escapeHtml_Cons [of c s] Int_Un_distrib2)
qed

lemma entity_append:
  assumes "\<forall>i < length xs. xs ! i = CHR ''&'' \<longrightarrow>
             (\<exists>e \<in> E. take (length e) (drop i xs) = e)"
    and "\<forall>i < length ys. ys ! i = CHR ''&'' \<longrightarrow>
             (\<exists>e \<in> E. take (length e) (drop i ys) = e)"
  shows "\<forall>i < length (xs @ ys). (xs @ ys) ! i = CHR ''&'' \<longrightarrow>
             (\<exists>e \<in> E. take (length e) (drop i (xs @ ys)) = e)"
proof (intro allI impI)
  fix i assume i: "i < length (xs @ ys)" and amp: "(xs @ ys) ! i = CHR ''&''"
  show "\<exists>e \<in> E. take (length e) (drop i (xs @ ys)) = e"
  proof (cases "i < length xs")
    case True
    with amp assms(1) obtain e where e: "e \<in> E" "take (length e) (drop i xs) = e"
      by (auto simp: nth_append)
    from e(2) have "length (take (length e) (drop i xs)) = length e"
      by simp
    then have "length e \<le> length xs - i"
      by simp
    then have "take (length e) (drop i (xs @ ys)) = take (length e) (drop i xs)"
      by simp
    with e(2) have "take (length e) (drop i (xs @ ys)) = e"
      by (simp only:)
    with e(1) show ?thesis by blast
  next
    case False
    with i have j: "i - length xs < length ys"
      by simp
    from False amp have "ys ! (i - length xs) = CHR ''&''"
      by (simp add: nth_append)
    with j assms(2) obtain e where e: "e \<in> E"
      "take (length e) (drop (i - length xs) ys) = e"
      by blast
    from False have "drop i (xs @ ys) = drop (i - length xs) ys"
      by simp
    with e(2) have "take (length e) (drop i (xs @ ys)) = e"
      by (simp only:)
    with e(1) show ?thesis by blast
  qed
qed

lemma entity_char:
  "\<forall>i < length (escapeHtml (JString [c])). escapeHtml (JString [c]) ! i = CHR ''&'' \<longrightarrow>
     (\<exists>e \<in> {''&amp;'', ''&lt;'', ''&gt;'', ''&quot;'', ''&#039;''}.
        take (length e) (drop i (escapeHtml (JString [c]))) = e)"
  by (auto simp: escapeHtml_char nth_Cons' less_Suc_eq)

lemma escapeHtml_entities:
  "\<forall>i < length (escapeHtml (JString s)). escapeHtml (JString s) ! i = CHR ''&'' \<longrightarrow>
     (\<exists>e \<in> {''&amp;'', ''&lt;'', ''&gt;'', ''&quot;'', ''&#039;''}.
        take (length e) (drop i (escapeHtml (JString s))) = e)"
proof (induction s)
  case Nil
  then show ?case by (simp add: escapeHtml_Nil)
next
  case (Cons c s)
  show ?case
    unfolding escapeHtml_Cons [of c s]
    by (rule entity_append [OF entity_char Cons.IH])
qed

text \<open>
  What \<open>escapeHtml\<close> returns: \<open>null\<close> and \<open>undefined\<close> give the empty
  string, and the output for a string has none of the characters \<open><\<close>, \<open>>\<close>, double
  quote, single quote, and an ampersand only where one of the five entities starts.
\<close>

lemma escapeHtml_safe:
  "escapeHtml JNull = [] \<and> escapeHtml JUndefined = []
   \<and> set (escapeHtml (JString s)) \<inter> {CHR ''<'', CHR ''>'', CHR 0x22, CHR 0x27} = {}
   \<and> (\<forall>i < length (escapeHtml (JString s)). escapeHtml (JString s) ! i = CHR ''&'' \<longrightarrow>
        (\<exists>e \<in> {''&amp;'', ''&lt;'', ''&gt;'', ''&quot;'', ''&#039;''}.
           take (length e) (drop i (escapeHtml (JString s))) = e))"
  using escapeHtml_no_markup [of s] escapeHtml_entities [of s]
  by (simp add: escapeHtml_def)

text \<open>
  C10 fails in its conclusion. Both templates interpolate \<open>ap.arpt_id\<close> into the \<open>href\<close>
  attribute without \<open>escapeHtml\<close>, although the list template escapes the same field in
  its text. For an airport whose identifier is a double quote followed by \<open>><script>\<close>,
  the popup holds the identifier as it is, so the attribute ends early and a tag opens.
\<close>

theorem href_not_escaped:
  "popupHtml (\<lambda>d. ''0.0'')
     \<lparr>lat = 0, lon = 0, arpt_id = dq @ ''><script>'', name = ''N'', city = ''C'', state = ''S'',
      icao = ''K'', fuel = [], dist = 0\<rparr>
   = ''<b>N</b><br>C, S<br>Fuel: <br>Distance: 0.0 mi<br><a href='' @ dq @
     ''https://www.airnav.com/airport/K'' @ dq @ ''><script>'' @ dq @
     '' target='' @ dq @ ''_blank'' @ dq @
     '' style='' @ dq @ ''color:#2e7555; text-decoration:underline;'' @ dq @
     ''>View on AirNav</a>''
   \<and> escapeHtml (JString (dq @ ''><script>'')) = ''&quot;&gt;&lt;script&gt;''"
  by (simp add: popupHtml_def fuelsText_def dq_def escapeHtml_def replace_all_def)

subsection \<open>Filtering\<close>

text \<open>
  C8. When none of the three fuel buttons has the class \<open>active\<close> (a missing button
  counts as not active), \<open>filterAirports\<close> returns the empty array, whatever the airports,
  the search mode, the center and the radius.
\<close>

theorem no_fuel_selected_shows_nothing:
  assumes "fuel_mogas s \<noteq> Some True" and "fuel_100ll s \<noteq> Some True"
    and "fuel_jet s \<noteq> Some True"
  shows "getSelectedFuels s = [] \<and> filterAirports hav s = []"
  using assms by (simp add: filterAirports_def getSelectedFuels_def)

theorem no_fuel_selected_shows_nothing_witness:
  "filterAirports (\<lambda>a b. 0)
     \<lparr>airports = [\<lparr>lat = 33.5, lon = -86.1, arpt_id = ''0A1'', name = ''FIELD'',
                   city = ''TOWN'', state = ''AL'', icao = ''K0A1'',
                   fuel = [(''100ll'', True), (''jet_a'', False), (''mogas'', True)]\<rparr>],
      filtered = [], markers = [], center = \<lparr>lat = 39.5, lon = -98.3\<rparr>, radiusMiles = 200,
      listPage = 0, searchMode = All, isLoadingMore = False, frames = 0,
      fuel_mogas = Some False, fuel_100ll = Some False, fuel_jet = None,
      listEl = Some [], countEl = True, loadMoreBtn = Some False,
      viewport = (\<lambda>p. True)\<rparr> = []"
  using no_fuel_selected_shows_nothing
    [of "\<lparr>airports = [\<lparr>lat = 33.5, lon = -86.1, arpt_id = ''0A1'', name = ''FIELD'',
                   city = ''TOWN'', state = ''AL'', icao = ''K0A1'',
                   fuel = [(''100ll'', True), (''jet_a'', False), (''mogas'', True)]\<rparr>],
      filtered = [], markers = [], center = \<lparr>lat = 39.5, lon = -98.3\<rparr>, radiusMiles = 200,
      listPage = 0, searchMode = All, isLoadingMore = False, frames = 0,
      fuel_mogas = Some False, fuel_100ll = Some False, fuel_jet = None,
      listEl = Some [], countEl = True, loadMoreBtn = Some False,
      viewport = (\<lambda>p. True)\<rparr>" "\<lambda>a b. 0"]
  by simp

subsection \<open>Sorting by a key\<close>

lemma mset_sort_insert: "mset (sort_insert cmp x ys) = add_mset x (mset ys)"
  by (induction ys) simp_all

lemma mset_js_sort: "mset (js_sort cmp xs) = mset xs"
  by (induction xs) (simp_all add: js_sort_def mset_sort_insert)

lemma set_sort_insert: "set (sort_insert cmp x ys) = insert x (set ys)"
  by (induction ys) auto

lemma sorted_sort_insert:
  fixes f :: "'a \<Rightarrow> real"
  assumes "sorted (map f ys)"
  shows "sorted (map f (sort_insert (\<lambda>a b. f a - f b) x ys))"
  using assms
proof (induction ys)
  case Nil
  then show ?case by simp
next
  case (Cons y ys)
  show ?case
  proof (cases "f x - f y \<le> 0")
    case True
    with Cons.prems show ?thesis by auto
  next
    case False
    with Cons show ?thesis by (auto simp: set_sort_insert)
  qed
qed

lemma sorted_js_sort:
  fixes f :: "'a \<Rightarrow> real"
  shows "sorted (map f (js_sort (\<lambda>a b. f a - f b) xs))"
proof (induction xs)
  case Nil
  then show ?case by (simp add: js_sort_def)
next
  case (Cons x xs)
  then show ?case
    using sorted_sort_insert [of f "js_sort (\<lambda>a b. f a - f b) xs" x]
    by (simp add: js_sort_def)
qed

subsection \<open>What the rendering functions change\<close>

lemma slice_page: "slice a (min (a + k) (length xs)) xs = take k (drop a xs)"
  by (simp add: slice_def min_def)

lemma updateLoadMoreState_eq:
  "updateLoadMoreState s =
     s\<lparr>loadMoreBtn :=
         map_option (\<lambda>b. length (filtered s) \<le> (listPage s + 1) * PAGE_SIZE) (loadMoreBtn s)\<rparr>"
  by (cases "loadMoreBtn s") (auto simp: updateLoadMoreState_def Let_def not_less)

lemma renderList_eq:
  assumes "listEl s = Some old" and "countEl s"
  shows "renderList reset s =
     updateLoadMoreState
       (s\<lparr>listPage := (if reset then 0 else listPage s),
          listEl := Some ((if reset then [] else old)
             @ take PAGE_SIZE (drop ((if reset then 0 else listPage s) * PAGE_SIZE) (filtered s)))\<rparr>)"
  using assms by (simp add: renderList_def Let_def slice_page)

lemma filtered_renderList: "filtered (renderList reset s) = filtered s"
  by (simp add: renderList_def Let_def updateLoadMoreState_eq split: option.splits)

lemma markers_renderList: "markers (renderList reset s) = markers s"
  by (simp add: renderList_def Let_def updateLoadMoreState_eq split: option.splits)

lemma center_renderList: "center (renderList reset s) = center s"
  by (simp add: renderList_def Let_def updateLoadMoreState_eq split: option.splits)

lemma filtered_render:
  "filtered (render hav s) =
     js_sort (\<lambda>a b. dist a - dist b)
       (map (\<lambda>ap. with_dist ap (hav (center s) (pos ap))) (filterAirports hav s))"
  by (simp add: render_def Let_def updateLoadMoreState_eq filtered_renderList renderPins_def)

lemma markers_render: "markers (render hav s) = take MAX_PINS (filtered (render hav s))"
  by (simp add: render_def Let_def updateLoadMoreState_eq filtered_renderList
      markers_renderList renderPins_def slice_def)

lemma center_render: "center (render hav s) = center s"
  by (simp add: render_def Let_def updateLoadMoreState_eq center_renderList renderPins_def)

lemma render_page:
  assumes "listEl s = Some old" and "countEl s"
  shows "listEl (render hav s) = Some (take PAGE_SIZE (filtered (render hav s)))
    \<and> listPage (render hav s) = 0 \<and> countEl (render hav s)
    \<and> loadMoreBtn (render hav s) =
        map_option (\<lambda>b. length (filtered (render hav s)) \<le> PAGE_SIZE) (loadMoreBtn s)"
  using assms
  by (simp add: render_def Let_def renderPins_def renderList_eq updateLoadMoreState_eq
      option.map_comp comp_def)

lemma loadMoreFrame_page:
  assumes "listEl s = Some old" and "countEl s"
  shows "listEl (loadMoreFrame s)
       = Some (old @ take PAGE_SIZE (drop ((listPage s + 1) * PAGE_SIZE) (filtered s)))
    \<and> listPage (loadMoreFrame s) = listPage s + 1
    \<and> filtered (loadMoreFrame s) = filtered s
    \<and> markers (loadMoreFrame s) = markers s
    \<and> center (loadMoreFrame s) = center s
    \<and> countEl (loadMoreFrame s)
    \<and> loadMoreBtn (loadMoreFrame s) =
        map_option (\<lambda>b. length (filtered s) \<le> (listPage s + 2) * PAGE_SIZE) (loadMoreBtn s)"
  using assms
  by (simp add: loadMoreFrame_def Let_def renderList_eq updateLoadMoreState_eq
      option.map_comp comp_def)

lemma pos_with_dist: "pos (with_dist ap d) = pos ap" "dist (with_dist ap d) = d"
  by (simp_all add: pos_def with_dist_def)

text \<open>
  C6. After \<open>render\<close>, \<open>filtered\<close> holds the airports that \<open>filterAirports\<close> selected, each
  with its distance from the center, in nondecreasing order of that distance; the pins are
  the first \<open>MAX_PINS\<close> (2000) of them; the list holds the first page of them; and every later
  page that the Load More callback appends is the next run of \<open>PAGE_SIZE\<close> entries of the
  same array, which the callback leaves as it is.
\<close>

theorem render_sorts_by_distance:
  "MAX_PINS = 2000
   \<and> sorted (map dist (filtered (render hav s)))
   \<and> mset (filtered (render hav s))
       = mset (map (\<lambda>ap. with_dist ap (hav (center s) (pos ap))) (filterAirports hav s))
   \<and> (\<forall>a \<in> set (filtered (render hav s)). dist a = hav (center (render hav s)) (pos a))
   \<and> markers (render hav s) = take MAX_PINS (filtered (render hav s))
   \<and> (listEl s \<noteq> None \<and> countEl s \<longrightarrow>
        listEl (render hav s) = Some (take PAGE_SIZE (filtered (render hav s))))
   \<and> (\<forall>t old. listEl t = Some old \<and> countEl t \<longrightarrow>
        filtered (loadMoreFrame t) = filtered t
      \<and> markers (loadMoreFrame t) = markers t
      \<and> listEl (loadMoreFrame t)
          = Some (old @ take PAGE_SIZE (drop ((listPage t + 1) * PAGE_SIZE) (filtered t))))"
proof -
  have m: "mset (filtered (render hav s))
       = mset (map (\<lambda>ap. with_dist ap (hav (center s) (pos ap))) (filterAirports hav s))"
    by (simp only: filtered_render mset_js_sort)
  have "set (filtered (render hav s))
       = set (map (\<lambda>ap. with_dist ap (hav (center s) (pos ap))) (filterAirports hav s))"
    using m by (rule mset_eq_setD)
  then have d: "\<forall>a \<in> set (filtered (render hav s)). dist a = hav (center (render hav s)) (pos a)"
    by (auto simp: center_render pos_with_dist)
  have l: "listEl s \<noteq> None \<and> countEl s \<longrightarrow>
        listEl (render hav s) = Some (take PAGE_SIZE (filtered (render hav s)))"
    using render_page by blast
  have f: "\<forall>t old. listEl t = Some old \<and> countEl t \<longrightarrow>
        filtered (loadMoreFrame t) = filtered t
      \<and> markers (loadMoreFrame t) = markers t
      \<and> listEl (loadMoreFrame t)
          = Some (old @ take PAGE_SIZE (drop ((listPage t + 1) * PAGE_SIZE) (filtered t)))"
    using loadMoreFrame_page by blast
  have s: "sorted (map dist (filtered (render hav s)))"
    by (simp only: filtered_render sorted_js_sort)
  have p: "MAX_PINS = 2000"
    by (simp add: MAX_PINS_def)
  from p s m d markers_render l f show ?thesis by blast
qed

text \<open>
  Two airports, the farther one first in \<open>airports.json\<close>, with the distance taken as the
  difference of the latitudes: \<open>render\<close> puts the nearer one first, pins both and lists
  both.
\<close>

theorem render_sorts_by_distance_witness:
  "(let hav = (\<lambda>c p. \<bar>lat p - lat c\<bar>);
        s = \<lparr>airports =
               [\<lparr>lat = 45, lon = -100, arpt_id = ''FAR'', name = ''F'', city = ''C'',
                  state = ''S'', icao = ''KFAR'', fuel = [(''mogas'', True)]\<rparr>,
                \<lparr>lat = 40, lon = -98, arpt_id = ''NEAR'', name = ''N'', city = ''C'',
                  state = ''S'', icao = ''KNEAR'', fuel = [(''mogas'', True)]\<rparr>],
             filtered = [], markers = [], center = \<lparr>lat = 39, lon = -98\<rparr>,
             radiusMiles = 200, listPage = 0, searchMode = All, isLoadingMore = False,
             frames = 0, fuel_mogas = Some True, fuel_100ll = Some False, fuel_jet = Some False,
             listEl = Some [], countEl = True, loadMoreBtn = Some False,
             viewport = (\<lambda>p. True)\<rparr>
    in map arpt_id (filtered (render hav s)) = [''NEAR'', ''FAR'']
     \<and> map dist (filtered (render hav s)) = [1, 6]
     \<and> sorted (map dist (filtered (render hav s)))
     \<and> markers (render hav s) = take MAX_PINS (filtered (render hav s))
     \<and> listEl (render hav s) = Some (take PAGE_SIZE (filtered (render hav s))))"
proof -
  have e: "filtered (render (\<lambda>c p. \<bar>lat p - lat c\<bar>)
          \<lparr>airports =
               [\<lparr>lat = 45, lon = -100, arpt_id = ''FAR'', name = ''F'', city = ''C'',
                  state = ''S'', icao = ''KFAR'', fuel = [(''mogas'', True)]\<rparr>,
                \<lparr>lat = 40, lon = -98, arpt_id = ''NEAR'', name = ''N'', city = ''C'',
                  state = ''S'', icao = ''KNEAR'', fuel = [(''mogas'', True)]\<rparr>],
             filtered = [], markers = [], center = \<lparr>lat = 39, lon = -98\<rparr>,
             radiusMiles = 200, listPage = 0, searchMode = All, isLoadingMore = False,
             frames = 0, fuel_mogas = Some True, fuel_100ll = Some False, fuel_jet = Some False,
             listEl = Some [], countEl = True, loadMoreBtn = Some False,
             viewport = (\<lambda>p. True)\<rparr>)
      = [\<lparr>lat = 40, lon = -98, arpt_id = ''NEAR'', name = ''N'', city = ''C'',
           state = ''S'', icao = ''KNEAR'', fuel = [(''mogas'', True)], dist = 1\<rparr>,
         \<lparr>lat = 45, lon = -100, arpt_id = ''FAR'', name = ''F'', city = ''C'',
           state = ''S'', icao = ''KFAR'', fuel = [(''mogas'', True)], dist = 6\<rparr>]"
    by (simp add: filtered_render filterAirports_def getSelectedFuels_def js_sort_def
        with_dist_def pos_def)
  show ?thesis
    unfolding Let_def
    using render_sorts_by_distance
      [of "\<lambda>c p. \<bar>lat p - lat c\<bar>"
          "\<lparr>airports =
               [\<lparr>lat = 45, lon = -100, arpt_id = ''FAR'', name = ''F'', city = ''C'',
                  state = ''S'', icao = ''KFAR'', fuel = [(''mogas'', True)]\<rparr>,
                \<lparr>lat = 40, lon = -98, arpt_id = ''NEAR'', name = ''N'', city = ''C'',
                  state = ''S'', icao = ''KNEAR'', fuel = [(''mogas'', True)]\<rparr>],
             filtered = [], markers = [], center = \<lparr>lat = 39, lon = -98\<rparr>,
             radiusMiles = 200, listPage = 0, searchMode = All, isLoadingMore = False,
             frames = 0, fuel_mogas = Some True, fuel_100ll = Some False, fuel_jet = Some False,
             listEl = Some [], countEl = True, loadMoreBtn = Some False,
             viewport = (\<lambda>p. True)\<rparr>"]
    by (simp add: e)
qed

subsection \<open>Pagination\<close>

lemma take_min_length: "take (min n (length xs)) xs = take n xs"
  by (simp add: min_def)

lemma render_establishes:
  assumes "listEl s \<noteq> None" and "countEl s" and "loadMoreBtn s \<noteq> None"
  shows "listEl (render hav s)
       = Some (take (min ((listPage (render hav s) + 1) * PAGE_SIZE)
                 (length (filtered (render hav s)))) (filtered (render hav s)))
    \<and> loadMoreBtn (render hav s)
       = Some (length (filtered (render hav s)) \<le> (listPage (render hav s) + 1) * PAGE_SIZE)
    \<and> countEl (render hav s)
    \<and> listPage (render hav s) = 0"
proof -
  from assms obtain old b where "listEl s = Some old" "loadMoreBtn s = Some b"
    by auto
  with assms(2) show ?thesis
    using render_page [of s old hav] by (simp add: take_min_length)
qed

lemma attemptLoadMore_keeps:
  assumes "listEl s
       = Some (take (min ((listPage s + 1) * PAGE_SIZE) (length (filtered s))) (filtered s))
    \<and> loadMoreBtn s = Some (length (filtered s) \<le> (listPage s + 1) * PAGE_SIZE)
    \<and> countEl s"
  shows "listEl (attemptLoadMore s)
       = Some (take (min ((listPage (attemptLoadMore s) + 1) * PAGE_SIZE)
                 (length (filtered (attemptLoadMore s)))) (filtered (attemptLoadMore s)))
    \<and> loadMoreBtn (attemptLoadMore s)
       = Some (length (filtered (attemptLoadMore s)) \<le> (listPage (attemptLoadMore s) + 1) * PAGE_SIZE)
    \<and> countEl (attemptLoadMore s)"
  using assms by (simp add: attemptLoadMore_def Let_def updateLoadMoreState_eq)

lemma loadMoreFrame_keeps:
  assumes "listEl s
       = Some (take (min ((listPage s + 1) * PAGE_SIZE) (length (filtered s))) (filtered s))
    \<and> loadMoreBtn s = Some (length (filtered s) \<le> (listPage s + 1) * PAGE_SIZE)
    \<and> countEl s"
  shows "listEl (loadMoreFrame s)
       = Some (take (min ((listPage (loadMoreFrame s) + 1) * PAGE_SIZE)
                 (length (filtered (loadMoreFrame s)))) (filtered (loadMoreFrame s)))
    \<and> loadMoreBtn (loadMoreFrame s)
       = Some (length (filtered (loadMoreFrame s)) \<le> (listPage (loadMoreFrame s) + 1) * PAGE_SIZE)
    \<and> countEl (loadMoreFrame s)"
proof -
  from assms have l: "listEl s = Some (take ((listPage s + 1) * PAGE_SIZE) (filtered s))"
    and c: "countEl s" and b: "loadMoreBtn s \<noteq> None"
    by (simp_all add: take_min_length)
  have "take ((listPage s + 1) * PAGE_SIZE) (filtered s)
        @ take PAGE_SIZE (drop ((listPage s + 1) * PAGE_SIZE) (filtered s))
      = take ((listPage s + 1 + 1) * PAGE_SIZE) (filtered s)"
    using take_add [of "(listPage s + 1) * PAGE_SIZE" PAGE_SIZE "filtered s"]
    by (simp add: algebra_simps)
  with loadMoreFrame_page [OF l c] b show ?thesis
    by (auto simp: take_min_length algebra_simps)
qed

lemma handle_keeps:
  assumes "listEl s
       = Some (take (min ((listPage s + 1) * PAGE_SIZE) (length (filtered s))) (filtered s))
    \<and> loadMoreBtn s = Some (length (filtered s) \<le> (listPage s + 1) * PAGE_SIZE)
    \<and> countEl s"
  shows "listEl (handle hav e s)
       = Some (take (min ((listPage (handle hav e s) + 1) * PAGE_SIZE)
                 (length (filtered (handle hav e s)))) (filtered (handle hav e s)))
    \<and> loadMoreBtn (handle hav e s)
       = Some (length (filtered (handle hav e s)) \<le> (listPage (handle hav e s) + 1) * PAGE_SIZE)
    \<and> countEl (handle hav e s)"
proof -
  have r: "listEl (render hav t)
       = Some (take (min ((listPage (render hav t) + 1) * PAGE_SIZE)
                 (length (filtered (render hav t)))) (filtered (render hav t)))
    \<and> loadMoreBtn (render hav t)
       = Some (length (filtered (render hav t)) \<le> (listPage (render hav t) + 1) * PAGE_SIZE)
    \<and> countEl (render hav t)"
    if "listEl t = listEl s" "countEl t = countEl s" "loadMoreBtn t = loadMoreBtn s" for t
    using render_establishes [of t hav] that assms by simp
  show ?thesis
  proof (cases e)
    case (MapClick la lo vp)
    then show ?thesis by (simp add: Let_def r)
  next
    case (MoveEnd vp)
    then show ?thesis using assms by (simp add: Let_def r)
  next
    case (Geolocated la lo vp)
    then show ?thesis by (simp add: r)
  next
    case (DataLoaded js)
    then show ?thesis by (simp add: r)
  next
    case (FuelToggle b)
    have "listEl ((toggle b s)\<lparr>listPage := 0\<rparr>) = listEl s"
      "countEl ((toggle b s)\<lparr>listPage := 0\<rparr>) = countEl s"
      "loadMoreBtn ((toggle b s)\<lparr>listPage := 0\<rparr>) = loadMoreBtn s"
      by (simp_all add: toggle_def split: fuel_button.splits)
    from r [OF this] FuelToggle assms show ?thesis by simp
  next
    case (SliderInput v vp)
    then show ?thesis by (simp add: Let_def r)
  next
    case ShowCircleChange
    then show ?thesis by (simp add: r)
  next
    case ViewModeClick
    then show ?thesis by (simp add: r)
  next
    case ListAllClick
    then show ?thesis by (simp add: r)
  next
    case LoadMoreClick
    then show ?thesis using attemptLoadMore_keeps [OF assms] by simp
  next
    case LoadMoreVisible
    then show ?thesis using attemptLoadMore_keeps [OF assms] assms
      by (simp add: Let_def updateLoadMoreState_eq)
  next
    case AnimationFrame
    have "listEl (s\<lparr>frames := frames s - 1\<rparr>)
       = Some (take (min ((listPage (s\<lparr>frames := frames s - 1\<rparr>) + 1) * PAGE_SIZE)
            (length (filtered (s\<lparr>frames := frames s - 1\<rparr>))))
              (filtered (s\<lparr>frames := frames s - 1\<rparr>)))
    \<and> loadMoreBtn (s\<lparr>frames := frames s - 1\<rparr>)
       = Some (length (filtered (s\<lparr>frames := frames s - 1\<rparr>))
            \<le> (listPage (s\<lparr>frames := frames s - 1\<rparr>) + 1) * PAGE_SIZE)
    \<and> countEl (s\<lparr>frames := frames s - 1\<rparr>)"
      using assms by simp
    from loadMoreFrame_keeps [OF this] AnimationFrame assms show ?thesis by simp
  qed
qed

lemma run_keeps:
  assumes "listEl s
       = Some (take (min ((listPage s + 1) * PAGE_SIZE) (length (filtered s))) (filtered s))
    \<and> loadMoreBtn s = Some (length (filtered s) \<le> (listPage s + 1) * PAGE_SIZE)
    \<and> countEl s"
  shows "listEl (run hav es s)
       = Some (take (min ((listPage (run hav es s) + 1) * PAGE_SIZE)
                 (length (filtered (run hav es s)))) (filtered (run hav es s)))
    \<and> loadMoreBtn (run hav es s)
       = Some (length (filtered (run hav es s)) \<le> (listPage (run hav es s) + 1) * PAGE_SIZE)
    \<and> countEl (run hav es s)"
  using assms
proof (induction es arbitrary: s)
  case Nil
  then show ?case by simp
next
  case (Cons e es)
  from handle_keeps [OF Cons.prems, of hav e] have
    "listEl (handle hav e s)
       = Some (take (min ((listPage (handle hav e s) + 1) * PAGE_SIZE)
                 (length (filtered (handle hav e s)))) (filtered (handle hav e s)))
    \<and> loadMoreBtn (handle hav e s)
       = Some (length (filtered (handle hav e s)) \<le> (listPage (handle hav e s) + 1) * PAGE_SIZE)
    \<and> countEl (handle hav e s)" .
  from Cons.IH [OF this] show ?case by simp
qed

text \<open>
  C7. With the list, the count and the Load More button in the document: after \<open>render\<close>
  the list shows the first page, and from then on, whatever events arrive, the list is
  the prefix of \<open>filtered\<close> of length \<open>min ((listPage + 1) * PAGE_SIZE) (length filtered)\<close>
  and the button is disabled exactly when \<open>(listPage + 1) * PAGE_SIZE\<close> is at least the
  length of \<open>filtered\<close>. The callback of a granted load-more adds one to \<open>listPage\<close> and
  appends the next \<open>PAGE_SIZE\<close> entries (fewer at the end) of \<open>filtered\<close>; a click on Load
  More itself changes neither the page nor the list, and requests a callback only when
  none is pending and more entries remain. \<open>PAGE_SIZE\<close> is 80.
\<close>

theorem pagination_by_pages:
  "PAGE_SIZE = 80
   \<and> (listEl s \<noteq> None \<and> countEl s \<and> loadMoreBtn s \<noteq> None \<longrightarrow>
        listPage (render hav s) = 0
      \<and> listEl (render hav s)
          = Some (take (min ((listPage (render hav s) + 1) * PAGE_SIZE)
                    (length (filtered (render hav s)))) (filtered (render hav s)))
      \<and> loadMoreBtn (render hav s)
          = Some (length (filtered (render hav s)) \<le> (listPage (render hav s) + 1) * PAGE_SIZE))
   \<and> (listEl s
         = Some (take (min ((listPage s + 1) * PAGE_SIZE) (length (filtered s))) (filtered s))
      \<and> loadMoreBtn s = Some (length (filtered s) \<le> (listPage s + 1) * PAGE_SIZE)
      \<and> countEl s \<longrightarrow>
        listEl (run hav es s)
          = Some (take (min ((listPage (run hav es s) + 1) * PAGE_SIZE)
                    (length (filtered (run hav es s)))) (filtered (run hav es s)))
      \<and> loadMoreBtn (run hav es s)
          = Some (length (filtered (run hav es s)) \<le> (listPage (run hav es s) + 1) * PAGE_SIZE)
      \<and> listPage (handle hav LoadMoreClick s) = listPage s
      \<and> listEl (handle hav LoadMoreClick s) = listEl s
      \<and> frames (handle hav LoadMoreClick s)
          = (if \<not> isLoadingMore s \<and> (listPage s + 1) * PAGE_SIZE < length (filtered s)
             then frames s + 1 else frames s)
      \<and> (0 < frames s \<longrightarrow>
            listPage (handle hav AnimationFrame s) = listPage s + 1
          \<and> filtered (handle hav AnimationFrame s) = filtered s
          \<and> listEl (handle hav AnimationFrame s)
              = Some (take (min ((listPage s + 1) * PAGE_SIZE) (length (filtered s))) (filtered s)
                      @ take PAGE_SIZE (drop ((listPage s + 1) * PAGE_SIZE) (filtered s)))))"
proof -
  have a: "listEl s \<noteq> None \<and> countEl s \<and> loadMoreBtn s \<noteq> None \<longrightarrow>
        listPage (render hav s) = 0
      \<and> listEl (render hav s)
          = Some (take (min ((listPage (render hav s) + 1) * PAGE_SIZE)
                    (length (filtered (render hav s)))) (filtered (render hav s)))
      \<and> loadMoreBtn (render hav s)
          = Some (length (filtered (render hav s)) \<le> (listPage (render hav s) + 1) * PAGE_SIZE)"
    using render_establishes [of s hav] by blast
  have b: "listEl (run hav es s)
          = Some (take (min ((listPage (run hav es s) + 1) * PAGE_SIZE)
                    (length (filtered (run hav es s)))) (filtered (run hav es s)))
      \<and> loadMoreBtn (run hav es s)
          = Some (length (filtered (run hav es s)) \<le> (listPage (run hav es s) + 1) * PAGE_SIZE)
      \<and> listPage (handle hav LoadMoreClick s) = listPage s
      \<and> listEl (handle hav LoadMoreClick s) = listEl s
      \<and> frames (handle hav LoadMoreClick s)
          = (if \<not> isLoadingMore s \<and> (listPage s + 1) * PAGE_SIZE < length (filtered s)
             then frames s + 1 else frames s)
      \<and> (0 < frames s \<longrightarrow>
            listPage (handle hav AnimationFrame s) = listPage s + 1
          \<and> filtered (handle hav AnimationFrame s) = filtered s
          \<and> listEl (handle hav AnimationFrame s)
              = Some (take (min ((listPage s + 1) * PAGE_SIZE) (length (filtered s))) (filtered s)
                      @ take PAGE_SIZE (drop ((listPage s + 1) * PAGE_SIZE) (filtered s))))"
    if inv: "listEl s
         = Some (take (min ((listPage s + 1) * PAGE_SIZE) (length (filtered s))) (filtered s))
      \<and> loadMoreBtn s = Some (length (filtered s) \<le> (listPage s + 1) * PAGE_SIZE)
      \<and> countEl s"
  proof -
    from inv have l: "listEl (s\<lparr>frames := frames s - 1\<rparr>)
        = Some (take (min ((listPage s + 1) * PAGE_SIZE) (length (filtered s))) (filtered s))"
      and c: "countEl (s\<lparr>frames := frames s - 1\<rparr>)"
      by simp_all
    have click: "listPage (handle hav LoadMoreClick s) = listPage s
      \<and> listEl (handle hav LoadMoreClick s) = listEl s
      \<and> frames (handle hav LoadMoreClick s)
          = (if \<not> isLoadingMore s \<and> (listPage s + 1) * PAGE_SIZE < length (filtered s)
             then frames s + 1 else frames s)"
      by (simp add: attemptLoadMore_def Let_def updateLoadMoreState_eq)
    have frame: "0 < frames s \<longrightarrow>
            listPage (handle hav AnimationFrame s) = listPage s + 1
          \<and> filtered (handle hav AnimationFrame s) = filtered s
          \<and> listEl (handle hav AnimationFrame s)
              = Some (take (min ((listPage s + 1) * PAGE_SIZE) (length (filtered s))) (filtered s)
                      @ take PAGE_SIZE (drop ((listPage s + 1) * PAGE_SIZE) (filtered s)))"
      using loadMoreFrame_page [OF l c] by simp
    from run_keeps [OF inv, of hav es] click frame show ?thesis by blast
  qed
  from a b show ?thesis by (simp add: PAGE_SIZE_def)
qed

text \<open>
  A page with a hundred selected airports, eighty of them listed and a callback pending:
  the callback lists the remaining twenty, moves to page 1 and disables the button.
\<close>

theorem pagination_by_pages_witness:
  "(let r = \<lparr>lat = 40, lon = -98, arpt_id = ''0A1'', name = ''N'', city = ''C'',
             state = ''S'', icao = ''K0A1'', fuel = [(''mogas'', True)], dist = 1\<rparr>;
        s = \<lparr>airports = [], filtered = replicate 100 r, markers = replicate 100 r,
             center = \<lparr>lat = 39, lon = -98\<rparr>,
             radiusMiles = 200, listPage = 0, searchMode = All, isLoadingMore = True,
             frames = 1, fuel_mogas = Some True, fuel_100ll = Some False, fuel_jet = Some False,
             listEl = Some (replicate 80 r), countEl = True, loadMoreBtn = Some False,
             viewport = (\<lambda>p. True)\<rparr>
    in listPage (handle (\<lambda>c p. 0) AnimationFrame s) = 1
     \<and> listEl (handle (\<lambda>c p. 0) AnimationFrame s) = Some (replicate 100 r)
     \<and> loadMoreBtn (run (\<lambda>c p. 0) [AnimationFrame] s) = Some True
     \<and> frames (handle (\<lambda>c p. 0) LoadMoreClick s) = 1)"
  unfolding Let_def
  using pagination_by_pages
    [of "\<lparr>airports = [],
          filtered = replicate 100 \<lparr>lat = 40, lon = -98, arpt_id = ''0A1'', name = ''N'',
             city = ''C'', state = ''S'', icao = ''K0A1'', fuel = [(''mogas'', True)], dist = 1\<rparr>,
          markers = replicate 100 \<lparr>lat = 40, lon = -98, arpt_id = ''0A1'', name = ''N'',
             city = ''C'', state = ''S'', icao = ''K0A1'', fuel = [(''mogas'', True)], dist = 1\<rparr>,
          center = \<lparr>lat = 39, lon = -98\<rparr>,
          radiusMiles = 200, listPage = 0, searchMode = All, isLoadingMore = True,
          frames = 1, fuel_mogas = Some True, fuel_100ll = Some False, fuel_jet = Some False,
          listEl = Some (replicate 80 \<lparr>lat = 40, lon = -98, arpt_id = ''0A1'', name = ''N'',
             city = ''C'', state = ''S'', icao = ''K0A1'', fuel = [(''mogas'', True)], dist = 1\<rparr>),
          countEl = True, loadMoreBtn = Some False,
          viewport = (\<lambda>p. True)\<rparr>"
        "\<lambda>c p. 0" "[AnimationFrame]"]
  by (simp add: PAGE_SIZE_def replicate_add [symmetric])

end
